theory Spec2Isabelle
  imports Main "HOL-Library.Char_ord" "HOL-Library.List_Lexorder"
begin

section \<open>Data model of the aggregated availability endpoint\<close>

text \<open>
  The types of \<^verbatim>\<open>AppointmentBooking.tsx\<close>. Identifiers are JSON numbers that the
  component only ever prints with \<^verbatim>\<open>String(id)\<close>; they are modelled as integers.
\<close>

record Service =
  s_id :: int
  s_name :: string
  s_durationMinutes :: "int option"

record EmployeeAvailability =
  e_id :: int
  e_name :: string
  e_lastname :: "string option"
  services :: "Service list"
  slots :: "string list"

record DayAvailability =
  date :: string
  employees :: "EmployeeAvailability list"

record AvailabilityResponse =
  companyId :: int
  r_month :: string
  days :: "DayAvailability list"

section \<open>Numbers and dates of the host language\<close>

text \<open>\<^verbatim>\<open>String(n)\<close> for an integer \<open>n\<close>: its decimal numeral, with a minus sign below zero.\<close>

definition digitChar :: "nat \<Rightarrow> char" where
  "digitChar n = ''0123456789'' ! n"

fun decimal :: "nat \<Rightarrow> string" where
  "decimal n = (if n < 10 then [digitChar n] else decimal (n div 10) @ [digitChar (n mod 10)])"

declare decimal.simps [simp del]

definition String_num :: "int \<Rightarrow> string" where
  "String_num n = (if n < 0 then CHR ''-'' # decimal (nat (- n)) else decimal (nat n))"

text \<open>
  A \<^verbatim>\<open>Date\<close> object. Every Date the component reads has either gone through
  \<^verbatim>\<open>startOfDay\<close> or was built at local midnight, so a valid Date is represented by its
  local calendar day: year, month (1 to 12) and day of the month. \<open>InvalidDate\<close> is the
  Date whose time value is NaN.
\<close>

datatype jsdate = InvalidDate | LocalDay int nat nat

text \<open>date-fns \<^verbatim>\<open>startOfDay\<close> keeps the calendar day (and keeps an invalid Date invalid).\<close>

definition startOfDay :: "jsdate \<Rightarrow> jsdate" where
  "startOfDay d = d"

text \<open>date-fns \<^verbatim>\<open>isBefore(a, b)\<close> compares time values; a comparison with NaN is false.\<close>

fun isBefore :: "jsdate \<Rightarrow> jsdate \<Rightarrow> bool" where
  "isBefore (LocalDay y m d) (LocalDay y' m' d') =
     (y < y' \<or> (y = y' \<and> (m < m' \<or> (m = m' \<and> d < d'))))"
| "isBefore _ _ = False"

text \<open>
  date-fns \<^verbatim>\<open>format(d, "yyyy-MM-dd")\<close>: each field is padded with leading zeros to at
  least its width, the year of a Date at or before year 0 is printed as \<open>1 - year\<close>, and an
  invalid Date raises RangeError (\<open>None\<close>).
\<close>

definition addLeadingZeros :: "nat \<Rightarrow> nat \<Rightarrow> string" where
  "addLeadingZeros n targetLength =
     replicate (targetLength - length (decimal n)) (CHR ''0'') @ decimal n"

fun format_ymd :: "jsdate \<Rightarrow> string option" where
  "format_ymd InvalidDate = None"
| "format_ymd (LocalDay y m d) =
     Some (addLeadingZeros (nat (if y > 0 then y else 1 - y)) 4 @ ''-'' @
           addLeadingZeros m 2 @ ''-'' @ addLeadingZeros d 2)"

text \<open>
  What the component takes from its surroundings: the Date constructor on a string
  (parsing is left to the engine, so it is a parameter; the result is read as a local
  calendar day) and the current Date.
\<close>

record js_env =
  newDate :: "string \<Rightarrow> jsdate"
  currentDate :: jsdate

section \<open>Helpers of the component\<close>

text \<open>The regular expression \<^verbatim>\<open>/^\d{4}-\d{2}-\d{2}$/\<close>.\<close>

definition isDigit :: "char \<Rightarrow> bool" where
  "isDigit c = (c \<in> set ''0123456789'')"

definition isKeyShape :: "string \<Rightarrow> bool" where
  "isKeyShape d =
     (length d = 10 \<and> list_all isDigit (take 4 d) \<and> d ! 4 = CHR ''-'' \<and>
      list_all isDigit (take 2 (drop 5 d)) \<and> d ! 7 = CHR ''-'' \<and>
      list_all isDigit (drop 8 d))"

text \<open>\<^verbatim>\<open>toKey(d: string | Date)\<close>; \<open>None\<close> is the RangeError of \<^verbatim>\<open>format\<close>.\<close>

datatype key_arg = Str string | Dt jsdate

fun toKey :: "js_env \<Rightarrow> key_arg \<Rightarrow> string option" where
  "toKey env (Dt d) = format_ymd (startOfDay d)"
| "toKey env (Str d) =
     (if isKeyShape d then Some d
      else let parsed = newDate env d in
        if parsed \<noteq> InvalidDate then format_ymd (startOfDay parsed)
        else let fallback = newDate env (d @ ''T00:00:00'') in
          format_ymd (startOfDay fallback))"

declare toKey.simps [simp del]

text \<open>A valid Date whose formatted year has four digits.\<close>

fun fourDigitDay :: "jsdate \<Rightarrow> bool" where
  "fourDigitDay InvalidDate = False"
| "fourDigitDay (LocalDay y m d) =
     (- 9998 \<le> y \<and> y \<le> 9999 \<and> 1 \<le> m \<and> m \<le> 12 \<and> 1 \<le> d \<and> d \<le> 31)"

text \<open>
  An engine for the examples: it parses the three local midnights and the one free-form
  date that the examples use, and nothing else.
\<close>

definition demo_env :: js_env where
  "demo_env = \<lparr> newDate = (\<lambda>s.
       if s = ''2025-03-10T00:00:00'' then LocalDay 2025 3 10
       else if s = ''2025-03-12T00:00:00'' then LocalDay 2025 3 12
       else if s = ''2025-03-03T00:00:00'' then LocalDay 2025 3 3
       else if s = ''March 10, 2025'' then LocalDay 2025 3 10
       else InvalidDate),
     currentDate = LocalDay 2025 3 5 \<rparr>"

section \<open>Derived values of a render\<close>

text \<open>
  The body of the loop of the first \<^verbatim>\<open>useMemo\<close> that decides \<^verbatim>\<open>dayHasAvailability\<close>
  from the employee and service filters; an empty string is a filter that is not set.
\<close>

definition dayHasAvailability :: "string \<Rightarrow> string \<Rightarrow> DayAvailability \<Rightarrow> bool" where
  "dayHasAvailability employeeId serviceId d =
     (if employeeId \<noteq> '''' then
        (case find (\<lambda>e. String_num (e_id e) = employeeId) (employees d) of
           Some emp \<Rightarrow>
             if length (slots emp) > 0 then
               (if serviceId \<noteq> ''''
                then list_ex (\<lambda>s. String_num (s_id s) = serviceId) (services emp)
                else True)
             else False
         | None \<Rightarrow> False)
      else if serviceId \<noteq> '''' then
        list_ex (\<lambda>e. length (slots e) > 0 \<and>
                   list_ex (\<lambda>s. String_num (s_id s) = serviceId) (services e)) (employees d)
      else list_ex (\<lambda>e. length (slots e) > 0) (employees d))"

definition today :: "js_env \<Rightarrow> jsdate" where
  "today env = startOfDay (currentDate env)"

text \<open>
  The loop over \<^verbatim>\<open>availability.days\<close>: the accumulator is the pair of the Map
  \<^verbatim>\<open>daysByKey\<close> and the Set \<^verbatim>\<open>availableDaySet\<close>. A day in the past is entered in the
  Map and skipped (\<^verbatim>\<open>continue\<close>) before the Set.
\<close>

fun scanDays :: "js_env \<Rightarrow> string \<Rightarrow> string \<Rightarrow> DayAvailability list \<Rightarrow>
    (string \<rightharpoonup> DayAvailability) \<times> string set \<Rightarrow>
    ((string \<rightharpoonup> DayAvailability) \<times> string set) option" where
  "scanDays env employeeId serviceId [] acc = Some acc"
| "scanDays env employeeId serviceId (d # ds) (m, st) =
     (case toKey env (Str (date d)) of
        None \<Rightarrow> None
      | Some key \<Rightarrow>
          let m' = m(key \<mapsto> d);
              dayObj = newDate env (key @ ''T00:00:00'')
          in if isBefore (startOfDay dayObj) (today env)
             then scanDays env employeeId serviceId ds (m', st)
             else scanDays env employeeId serviceId ds
                    (m', if dayHasAvailability employeeId serviceId d then insert key st else st))"

definition dayIndex_memo :: "js_env \<Rightarrow> AvailabilityResponse option \<Rightarrow> string \<Rightarrow> string \<Rightarrow>
    ((string \<rightharpoonup> DayAvailability) \<times> string set) option" where
  "dayIndex_memo env availability employeeId serviceId =
     (case availability of
        None \<Rightarrow> Some (Map.empty, {})
      | Some a \<Rightarrow> scanDays env employeeId serviceId (days a) (Map.empty, {}))"

text \<open>\<^verbatim>\<open>earliestAvailableDate\<close>: the first of the sorted available keys, as a Date.\<close>

definition earliestAvailableDate_memo :: "js_env \<Rightarrow> AvailabilityResponse option \<Rightarrow>
    string set \<Rightarrow> jsdate option option" where
  "earliestAvailableDate_memo env availability availableDaySet =
     (case availability of
        None \<Rightarrow> Some None
      | Some a \<Rightarrow>
          if availableDaySet = {} then Some None
          else (case those (map (\<lambda>d. toKey env (Str (date d))) (days a)) of
                  None \<Rightarrow> None
                | Some ks \<Rightarrow>
                    let keys = sort (filter (\<lambda>k. k \<in> availableDaySet) ks)
                    in Some (if length keys \<noteq> 0
                             then Some (newDate env (hd keys @ ''T00:00:00''))
                             else None)))"

definition selectedDayData_memo :: "js_env \<Rightarrow> AvailabilityResponse option \<Rightarrow>
    jsdate option \<Rightarrow> (string \<rightharpoonup> DayAvailability) \<Rightarrow> DayAvailability option option" where
  "selectedDayData_memo env availability selectedDate daysByKey =
     (case availability of
        None \<Rightarrow> Some None
      | Some a \<Rightarrow>
          (case selectedDate of
             None \<Rightarrow> Some None
           | Some sd \<Rightarrow>
               (case toKey env (Dt sd) of
                  None \<Rightarrow> None
                | Some k \<Rightarrow> Some (daysByKey k))))"

definition employeesForUI_memo :: "DayAvailability option \<Rightarrow> string \<Rightarrow>
    EmployeeAvailability list" where
  "employeesForUI_memo selectedDayData serviceId =
     (case selectedDayData of
        None \<Rightarrow> []
      | Some sdd \<Rightarrow>
          let base = filter (\<lambda>e. length (slots e) > 0) (employees sdd)
          in if serviceId = '''' then base
             else filter (\<lambda>e. list_ex (\<lambda>s. String_num (s_id s) = serviceId) (services e)) base)"

text \<open>
  A JavaScript \<^verbatim>\<open>Map\<close> keeps its keys in the order of their first insertion;
  \<^verbatim>\<open>set\<close> on a key already present replaces the value in place.
\<close>

fun map_set :: "'k \<Rightarrow> 'v \<Rightarrow> ('k \<times> 'v) list \<Rightarrow> ('k \<times> 'v) list" where
  "map_set k v [] = [(k, v)]"
| "map_set k v ((k', v') # m) =
     (if k' = k then (k, v) # m else (k', v') # map_set k v m)"

definition servicesForUI_memo :: "DayAvailability option \<Rightarrow> string \<Rightarrow> Service list" where
  "servicesForUI_memo selectedDayData employeeId =
     (case selectedDayData of
        None \<Rightarrow> []
      | Some sdd \<Rightarrow>
          if employeeId \<noteq> '''' then
            (case find (\<lambda>e. String_num (e_id e) = employeeId) (employees sdd) of
               Some emp \<Rightarrow> services emp
             | None \<Rightarrow> [])
          else
            map snd
              (fold (\<lambda>e m. if length (slots e) = 0 then m
                            else fold (\<lambda>s m. map_set (s_id s) s m) (services e) m)
                 (employees sdd) []))"

definition slotsForUI_memo :: "DayAvailability option \<Rightarrow> string \<Rightarrow> string list" where
  "slotsForUI_memo selectedDayData employeeId =
     (case selectedDayData of
        None \<Rightarrow> []
      | Some sdd \<Rightarrow>
          if employeeId = '''' then []
          else (case find (\<lambda>e. String_num (e_id e) = employeeId) (employees sdd) of
                  Some emp \<Rightarrow> slots emp
                | None \<Rightarrow> []))"

section \<open>State of the form\<close>

record form_state =
  name :: string
  phone :: string
  noteField :: string
  serviceId :: string
  employeeId :: string
  selectedSlot :: string
  month :: jsdate
  selectedDate :: "jsdate option"
  availability :: "AvailabilityResponse option"
  loadingAvailability :: bool
  error :: string
  submitting :: bool
  timeOpen :: bool

text \<open>The values one render computes from the state; \<open>None\<close> when a memo raises.\<close>

record derived =
  daysByKey :: "string \<rightharpoonup> DayAvailability"
  availableDaySet :: "string set"
  earliestAvailableDate :: "jsdate option"
  selectedDayData :: "DayAvailability option"

definition render :: "js_env \<Rightarrow> form_state \<Rightarrow> derived option" where
  "render env s =
     (case dayIndex_memo env (availability s) (employeeId s) (serviceId s) of
        None \<Rightarrow> None
      | Some (m, st) \<Rightarrow>
          (case earliestAvailableDate_memo env (availability s) st of
             None \<Rightarrow> None
           | Some e \<Rightarrow>
               (case selectedDayData_memo env (availability s) (selectedDate s) m of
                  None \<Rightarrow> None
                | Some sdd \<Rightarrow>
                    Some \<lparr> daysByKey = m, availableDaySet = st,
                           earliestAvailableDate = e, selectedDayData = sdd \<rparr>)))"

definition canReserve :: "form_state \<Rightarrow> bool" where
  "canReserve s =
     (name s \<noteq> '''' \<and> phone s \<noteq> '''' \<and> serviceId s \<noteq> '''' \<and> selectedSlot s \<noteq> '''' \<and>
      selectedDate s \<noteq> None \<and> employeeId s \<noteq> '''' \<and> \<not> submitting s)"

section \<open>Fetching the availability of a month\<close>

text \<open>
  A thrown value, as far as the handlers read it: \<^verbatim>\<open>e?.name\<close> and \<^verbatim>\<open>e?.message\<close>,
  either of which can be undefined. The awaited call to the backend either resolves
  with a value or rejects with a thrown value; which of the two is the backend's choice.
\<close>

record js_error =
  err_name :: "string option"
  err_message :: "string option"

datatype 'a settled = Resolved 'a | Rejected js_error

text \<open>The RangeError that date-fns \<^verbatim>\<open>format\<close> raises on an invalid Date.\<close>

definition rangeError :: js_error where
  "rangeError = \<lparr> err_name = Some ''RangeError'', err_message = Some ''Invalid time value'' \<rparr>"

text \<open>
  The body of a reservation. The conversion of day and slot to an ISO instant in UTC
  depends on the time zone and is not modelled: the payload keeps the local day and the
  slot; \<^verbatim>\<open>toISOString\<close> raises RangeError on an invalid Date.
\<close>

record CreateAppointmentPayload =
  p_serviceId :: string
  p_name :: string
  p_whatsappNumber :: string
  p_day :: jsdate
  p_time :: string
  p_note :: "string option"
  p_employeeId :: string

definition buildDateTimeISO :: "jsdate \<Rightarrow> string \<Rightarrow> (jsdate \<times> string) option" where
  "buildDateTimeISO d hhmm = (if d = InvalidDate then None else Some (d, hhmm))"

datatype request = GetAvailability string | PostAppointment CreateAppointmentPayload

text \<open>date-fns \<^verbatim>\<open>format(d, "yyyy-MM")\<close>.\<close>

fun format_ym :: "jsdate \<Rightarrow> string option" where
  "format_ym InvalidDate = None"
| "format_ym (LocalDay y m d) =
     Some (addLeadingZeros (nat (if y > 0 then y else 1 - y)) 4 @ ''-'' @ addLeadingZeros m 2)"

text \<open>\<^verbatim>\<open>data.days.map((d) => ({ ...d, date: toKey(d.date) }))\<close>\<close>

fun normalizeDays :: "js_env \<Rightarrow> DayAvailability list \<Rightarrow> DayAvailability list option" where
  "normalizeDays env [] = Some []"
| "normalizeDays env (d # ds) =
     (case toKey env (Str (date d)) of
        None \<Rightarrow> None
      | Some k \<Rightarrow>
          (case normalizeDays env ds of
             None \<Rightarrow> None
           | Some ds' \<Rightarrow> Some (d\<lparr>date := k\<rparr> # ds')))"

text \<open>The \<^verbatim>\<open>catch\<close> clause of \<^verbatim>\<open>fetchMonthAvailability\<close>.\<close>

definition catch_fetch :: "js_error \<Rightarrow> form_state \<Rightarrow> form_state" where
  "catch_fetch e s =
     (if err_name e \<noteq> Some ''AbortError''
      then s\<lparr>error := (case err_message e of
                          Some msg \<Rightarrow> msg
                        | None \<Rightarrow> ''Failed to load availability'')\<rparr>
      else s)"

text \<open>
  \<^verbatim>\<open>fetchMonthAvailability\<close> up to its \<^verbatim>\<open>await\<close>: the state it sets and the request it
  sends. When the month cannot be formatted nothing is sent and the function is over.
\<close>

definition fetch_begin :: "jsdate \<Rightarrow> form_state \<Rightarrow> form_state \<times> request list" where
  "fetch_begin targetMonth s =
     (let s1 = s\<lparr>loadingAvailability := True, error := ''''\<rparr>
      in case format_ym targetMonth of
           None \<Rightarrow> ((catch_fetch rangeError s1)\<lparr>loadingAvailability := False\<rparr>, [])
         | Some monthParam \<Rightarrow> (s1, [GetAvailability monthParam]))"

text \<open>\<^verbatim>\<open>fetchMonthAvailability\<close> from the moment its request settles.\<close>

definition fetch_settle ::
    "js_env \<Rightarrow> AvailabilityResponse settled \<Rightarrow> form_state \<Rightarrow> form_state" where
  "fetch_settle env outcome s =
     (case outcome of
        Rejected e \<Rightarrow> (catch_fetch e s)\<lparr>loadingAvailability := False\<rparr>
      | Resolved data \<Rightarrow>
          (case normalizeDays env (days data) of
             None \<Rightarrow> (catch_fetch rangeError s)\<lparr>loadingAvailability := False\<rparr>
           | Some ds \<Rightarrow>
               s\<lparr>availability := Some (data\<lparr>days := ds\<rparr>), loadingAvailability := False\<rparr>))"

definition fetchMonthAvailability :: "js_env \<Rightarrow> jsdate \<Rightarrow> AvailabilityResponse settled \<Rightarrow>
    form_state \<Rightarrow> form_state \<times> request list" where
  "fetchMonthAvailability env targetMonth outcome s =
     (case fetch_begin targetMonth s of
        (s1, []) \<Rightarrow> (s1, [])
      | (s1, r # rs) \<Rightarrow> (fetch_settle env outcome s1, r # rs))"

section \<open>Submitting a reservation\<close>

text \<open>
  \<^verbatim>\<open>handleSubmit\<close>, given how the POST and the re-fetch settle. It returns the state it
  leaves and the requests it sent, in order.
\<close>

definition handleSubmit :: "js_env \<Rightarrow> unit settled \<Rightarrow> AvailabilityResponse settled \<Rightarrow>
    form_state \<Rightarrow> form_state \<times> request list" where
  "handleSubmit env post_outcome fetch_outcome s =
     (let s0 = s\<lparr>error := ''''\<rparr> in
      case selectedDate s of
        None \<Rightarrow> (s0, [])
      | Some sd \<Rightarrow>
          if \<not> canReserve s then (s0, [])
          else
            let s1 = s0\<lparr>submitting := True\<rparr> in
            (case buildDateTimeISO sd (selectedSlot s) of
               None \<Rightarrow> (s1\<lparr>error := ''Invalid time value'', submitting := False\<rparr>, [])
             | Some (day, time) \<Rightarrow>
                 let payload = \<lparr> p_serviceId = serviceId s, p_name = name s,
                       p_whatsappNumber = phone s, p_day = day, p_time = time,
                       p_note = (if noteField s = '''' then None else Some (noteField s)),
                       p_employeeId = employeeId s \<rparr>
                 in (case post_outcome of
                       Rejected e \<Rightarrow>
                         (s1\<lparr>error := (case err_message e of
                                          Some msg \<Rightarrow> msg
                                        | None \<Rightarrow> ''No se pudo crear la reserva''),
                             submitting := False\<rparr>,
                          [PostAppointment payload])
                     | Resolved u \<Rightarrow>
                         (case fetchMonthAvailability env (month s) fetch_outcome s1 of
                            (s2, reqs) \<Rightarrow>
                              (s2\<lparr>selectedSlot := '''', noteField := '''', submitting := False\<rparr>,
                               PostAppointment payload # reqs)))))"

section \<open>The effects\<close>

text \<open>
  Each effect reads the values of the render it belongs to (\<open>r\<close> and \<open>dv\<close>) and queues
  state updates; \<open>p\<close> is the state with the updates queued so far. \<open>None\<close> is an exception.
\<close>

datatype effect = MonthChange | DateValidity | DateChange | EmployeeChange | ServiceChange

text \<open>Ensure the selected date remains valid for the current filters.\<close>

definition effect_dateValidity ::
    "js_env \<Rightarrow> form_state \<Rightarrow> derived \<Rightarrow> form_state \<Rightarrow> form_state option" where
  "effect_dateValidity env r dv p =
     (case availability r of
        None \<Rightarrow> Some p
      | Some a \<Rightarrow>
          (case (case selectedDate r of
                   None \<Rightarrow> Some False
                 | Some sd \<Rightarrow>
                     (case toKey env (Dt sd) of
                        None \<Rightarrow> None
                      | Some k \<Rightarrow> Some (k \<in> availableDaySet dv))) of
             None \<Rightarrow> None
           | Some valid \<Rightarrow>
               Some (if \<not> valid then
                       (case earliestAvailableDate dv of
                          Some e \<Rightarrow> p\<lparr>selectedDate := Some e\<rparr>
                        | None \<Rightarrow> p\<lparr>selectedDate := None, selectedSlot := ''''\<rparr>)
                     else p)))"

text \<open>Reset the time when the date changes.\<close>

definition effect_dateChange :: "form_state \<Rightarrow> form_state" where
  "effect_dateChange p = p\<lparr>selectedSlot := '''', timeOpen := False\<rparr>"

text \<open>The effect on \<^verbatim>\<open>employeeId\<close>.\<close>

definition effect_employeeChange ::
    "js_env \<Rightarrow> form_state \<Rightarrow> derived \<Rightarrow> form_state \<Rightarrow> form_state option" where
  "effect_employeeChange env r dv p =
     (if employeeId r = '''' then Some p
      else case selectedDayData dv of
        None \<Rightarrow> Some p
      | Some sdd \<Rightarrow>
          (case find (\<lambda>e. String_num (e_id e) = employeeId r) (employees sdd) of
             None \<Rightarrow> Some p
           | Some emp \<Rightarrow>
               let offers = list_ex (\<lambda>s. String_num (s_id s) = serviceId r) (services emp);
                   p1 = (if serviceId r \<noteq> '''' \<and> \<not> offers then p\<lparr>serviceId := ''''\<rparr> else p)
               in case (if length (slots emp) > 0
                        then (case toKey env (Dt (case selectedDate r of
                                                    Some sd \<Rightarrow> sd
                                                  | None \<Rightarrow> currentDate env)) of
                                None \<Rightarrow> None
                              | Some k \<Rightarrow> Some (daysByKey dv k = Some sdd))
                        else Some False) of
                    None \<Rightarrow> None
                  | Some hasSlotsToday \<Rightarrow>
                      let canToday = (hasSlotsToday \<and> (serviceId r = '''' \<or> offers));
                          p2 = (if \<not> canToday \<and> earliestAvailableDate dv \<noteq> None
                                then p1\<lparr>selectedDate := earliestAvailableDate dv\<rparr>
                                else p1)
                      in Some (p2\<lparr>selectedSlot := '''', timeOpen := False\<rparr>)))"

text \<open>The effect on \<^verbatim>\<open>serviceId\<close>, \<^verbatim>\<open>employeeId\<close> and \<^verbatim>\<open>selectedDayData\<close>.\<close>

definition effect_serviceChange :: "form_state \<Rightarrow> derived \<Rightarrow> form_state \<Rightarrow> form_state" where
  "effect_serviceChange r dv p =
     (if serviceId r = '''' \<or> employeeId r = '''' then p
      else case selectedDayData dv of
        None \<Rightarrow> p
      | Some sdd \<Rightarrow>
          (case find (\<lambda>e. String_num (e_id e) = employeeId r) (employees sdd) of
             None \<Rightarrow> p\<lparr>employeeId := '''', selectedSlot := '''', timeOpen := False\<rparr>
           | Some emp \<Rightarrow>
               if \<not> list_ex (\<lambda>s. String_num (s_id s) = serviceId r) (services emp)
               then p\<lparr>employeeId := '''', selectedSlot := '''', timeOpen := False\<rparr>
               else p))"

text \<open>
  One pass of effects after a render of state \<open>r\<close>: the effects in \<open>fired\<close> (those whose
  dependencies changed) run in the order of their declaration, all on the values of that
  render, and their updates are applied together. React compares dependencies by
  identity, so \<open>fired\<close> holds at least the effects with a dependency whose value changed.
\<close>

definition run_effects ::
    "js_env \<Rightarrow> effect set \<Rightarrow> form_state \<Rightarrow> (form_state \<times> request list) option" where
  "run_effects env fired r =
     (case render env r of
        None \<Rightarrow> None
      | Some dv \<Rightarrow>
          (case (if MonthChange \<in> fired then fetch_begin (month r) r else (r, [])) of
             (p0, reqs) \<Rightarrow>
               (case (if DateValidity \<in> fired then effect_dateValidity env r dv p0
                      else Some p0) of
                  None \<Rightarrow> None
                | Some p1 \<Rightarrow>
                    let p2 = (if DateChange \<in> fired then effect_dateChange p1 else p1)
                    in (case (if EmployeeChange \<in> fired
                              then effect_employeeChange env r dv p2 else Some p2) of
                          None \<Rightarrow> None
                        | Some p3 \<Rightarrow>
                            Some (if ServiceChange \<in> fired
                                  then effect_serviceChange r dv p3 else p3, reqs)))))"

text \<open>Further passes, one per re-render, each with its own set of fired effects.\<close>

fun run_passes :: "js_env \<Rightarrow> effect set list \<Rightarrow> form_state \<Rightarrow> form_state option" where
  "run_passes env [] s = Some s"
| "run_passes env (fired # rest) s =
     (case run_effects env fired s of
        None \<Rightarrow> None
      | Some (p, reqs) \<Rightarrow> run_passes env rest p)"

text \<open>
  The effects that React must run after a re-render from state \<open>prev\<close> to state \<open>cur\<close>:
  those with a dependency, read off the dependency arrays, whose value differs. (The
  dependency \<^verbatim>\<open>selectedDayData\<close> of the last effect and the memoised dependencies of
  the second are compared by identity only and add no value comparison here.)
\<close>

definition deps_changed :: "form_state \<Rightarrow> form_state \<Rightarrow> effect set" where
  "deps_changed prev cur =
     (if month cur \<noteq> month prev then {MonthChange} else {}) \<union>
     (if availability cur \<noteq> availability prev \<or> employeeId cur \<noteq> employeeId prev \<or>
         serviceId cur \<noteq> serviceId prev then {DateValidity} else {}) \<union>
     (if selectedDate cur \<noteq> selectedDate prev then {DateChange} else {}) \<union>
     (if employeeId cur \<noteq> employeeId prev then {EmployeeChange} else {}) \<union>
     (if serviceId cur \<noteq> serviceId prev \<or> employeeId cur \<noteq> employeeId prev
      then {ServiceChange} else {})"

section \<open>The specification's wording\<close>

text \<open>
  The calendar day that a key of shape yyyy-MM-dd denotes; "chronologically earliest" is
  read on these days.
\<close>

definition digitVal :: "char \<Rightarrow> nat" where
  "digitVal c = of_char c - 48"

definition numeral_of :: "string \<Rightarrow> nat" where
  "numeral_of cs = foldl (\<lambda>n c. 10 * n + digitVal c) 0 cs"

definition keyDay :: "string \<Rightarrow> jsdate" where
  "keyDay k = LocalDay (int (numeral_of (take 4 k))) (numeral_of (take 2 (drop 5 k)))
     (numeral_of (drop 8 k))"

text \<open>The requests that fetch availability, to count the re-fetches of a submission.\<close>

definition isGet :: "request \<Rightarrow> bool" where
  "isGet q = (case q of GetAvailability mp \<Rightarrow> True | PostAppointment pl \<Rightarrow> False)"

text \<open>
  Section 4.2 of the specification, read on one day entry \<open>d\<close> stored under \<open>key\<close>. The
  entry of an employee on a day is the first entry of the list that carries the id.
\<close>

definition employee_entry :: "DayAvailability \<Rightarrow> string \<Rightarrow> EmployeeAvailability option" where
  "employee_entry d eid = find (\<lambda>e. String_num (e_id e) = eid) (employees d)"

definition spec_day_available ::
    "js_env \<Rightarrow> string \<Rightarrow> string \<Rightarrow> string \<Rightarrow> DayAvailability \<Rightarrow> bool" where
  "spec_day_available env eid sid key d =
     (\<not> isBefore (newDate env (key @ ''T00:00:00'')) (currentDate env) \<and>
      (if eid \<noteq> '''' then
         (case employee_entry d eid of
            None \<Rightarrow> False
          | Some emp \<Rightarrow> slots emp \<noteq> [] \<and>
              (sid \<noteq> '''' \<longrightarrow> (\<exists>s\<in>set (services emp). String_num (s_id s) = sid)))
       else if sid \<noteq> '''' then
         (\<exists>e\<in>set (employees d). slots e \<noteq> [] \<and>
            (\<exists>s\<in>set (services e). String_num (s_id s) = sid))
       else (\<exists>e\<in>set (employees d). slots e \<noteq> [])))"

text \<open>Section 4.5: the services of every employee of the day who has a slot.\<close>

definition spec_service_union :: "DayAvailability \<Rightarrow> Service set" where
  "spec_service_union sdd =
     (\<Union>e\<in>{e \<in> set (employees sdd). slots e \<noteq> []}. set (services e))"

text \<open>
  The invariant of the Map that collects the services of a day: its keys are distinct,
  every value is one of the services seen so far and is stored under its own id, and
  every id seen so far is a key.
\<close>

definition svc_inv :: "(int \<times> Service) list \<Rightarrow> Service set \<Rightarrow> bool" where
  "svc_inv m A \<longleftrightarrow> distinct (map fst m) \<and> (\<forall>(k, v)\<in>set m. s_id v = k \<and> v \<in> A) \<and>
     fst ` set m = s_id ` A"

section \<open>Example data\<close>

text \<open>
  The scenario of the specification: on 2025-03-05 the snapshot of March 2025 holds a
  day in the past (March 3), March 10 with employees A and B, and March 12 with B.
\<close>

definition svc1 :: Service where
  "svc1 = \<lparr> s_id = 1, s_name = ''Cut'', s_durationMinutes = Some 30 \<rparr>"

definition svc2 :: Service where
  "svc2 = \<lparr> s_id = 2, s_name = ''Color'', s_durationMinutes = None \<rparr>"

definition empA :: EmployeeAvailability where
  "empA = \<lparr> e_id = 1, e_name = ''A'', e_lastname = None, services = [svc1],
            slots = [''09:00'', ''10:00''] \<rparr>"

definition empB :: EmployeeAvailability where
  "empB = \<lparr> e_id = 2, e_name = ''B'', e_lastname = None, services = [svc2],
            slots = [''14:00''] \<rparr>"

definition day03 :: DayAvailability where
  "day03 = \<lparr> date = ''2025-03-03'', employees = [empA] \<rparr>"

definition day10 :: DayAvailability where
  "day10 = \<lparr> date = ''2025-03-10'', employees = [empA, empB] \<rparr>"

definition day12 :: DayAvailability where
  "day12 = \<lparr> date = ''2025-03-12'', employees = [empB] \<rparr>"

definition demo_snapshot :: AvailabilityResponse where
  "demo_snapshot = \<lparr> companyId = 1, r_month = ''2025-03'', days = [day03, day10, day12] \<rparr>"

text \<open>A filled form on that snapshot, and a failed answer of the backend.\<close>

definition demo_state :: form_state where
  "demo_state = \<lparr> name = ''Ana'', phone = ''+506 8888'', noteField = ''window seat'',
     serviceId = ''2'', employeeId = ''2'', selectedSlot = ''14:00'',
     month = LocalDay 2025 3 1, selectedDate = Some (LocalDay 2025 3 10),
     availability = Some demo_snapshot, loadingAvailability = False, error = '''',
     submitting = False, timeOpen = False \<rparr>"

definition http500 :: js_error where
  "http500 = \<lparr> err_name = Some ''Error'', err_message = Some ''HTTP 500 Internal Server Error'' \<rparr>"

text \<open>States of the form just after a load and after a selection.\<close>

definition demo_fresh :: form_state where
  "demo_fresh = demo_state\<lparr>serviceId := '''', employeeId := '''', selectedSlot := '''',
     selectedDate := None\<rparr>"

definition demo_pickA :: form_state where
  "demo_pickA = demo_state\<lparr>serviceId := '''', employeeId := ''1'', selectedSlot := '''',
     selectedDate := Some (LocalDay 2025 3 12)\<rparr>"

definition demo_pickA_service2 :: form_state where
  "demo_pickA_service2 = demo_state\<lparr>employeeId := ''1'', selectedSlot := ''''\<rparr>"

definition demo_service1 :: form_state where
  "demo_service1 = demo_state\<lparr>serviceId := ''1''\<rparr>"

text \<open>The Map \<^verbatim>\<open>daysByKey\<close> of the example snapshot.\<close>

definition demo_index :: "string \<rightharpoonup> DayAvailability" where
  "demo_index = [''2025-03-03'' \<mapsto> day03, ''2025-03-10'' \<mapsto> day10, ''2025-03-12'' \<mapsto> day12]"

section \<open>Facts about the helpers\<close>

lemma decimal_digits: "list_all isDigit (decimal n)"
proof (induction n rule: decimal.induct)
  case (1 n)
  have d: "isDigit (digitChar k)" if "k < 10" for k
  proof -
    from that have "k \<in> {0,1,2,3,4,5,6,7,8,9}" by auto
    then show ?thesis by (auto simp: isDigit_def digitChar_def)
  qed
  show ?case
  proof (cases "n < 10")
    case True
    then show ?thesis by (subst decimal.simps) (simp add: d)
  next
    case False
    with 1 show ?thesis by (subst decimal.simps) (simp add: d)
  qed
qed

lemma length_decimal_1: "n < 10 \<Longrightarrow> length (decimal n) = 1"
  by (subst decimal.simps) simp

lemma length_decimal_2: "n < 100 \<Longrightarrow> length (decimal n) \<le> 2"
  by (subst decimal.simps) (simp add: length_decimal_1)

lemma length_decimal_3: "n < 1000 \<Longrightarrow> length (decimal n) \<le> 3"
  by (subst decimal.simps) (use length_decimal_2 [of "n div 10"] in simp)

lemma length_decimal_4: "n < 10000 \<Longrightarrow> length (decimal n) \<le> 4"
  by (subst decimal.simps) (use length_decimal_3 [of "n div 10"] in simp)

lemma addLeadingZeros_digits: "list_all isDigit (addLeadingZeros n k)"
proof -
  have "isDigit (CHR ''0'')" by (simp add: isDigit_def)
  then have "list_all isDigit (replicate j (CHR ''0''))" for j
    by (simp add: list_all_iff)
  then show ?thesis by (simp add: addLeadingZeros_def decimal_digits)
qed

lemma length_addLeadingZeros:
  "length (decimal n) \<le> k \<Longrightarrow> length (addLeadingZeros n k) = k"
  by (simp add: addLeadingZeros_def)

lemma isKeyShape_concat:
  assumes "length a = 4" "length b = 2" "length c = 2"
    and "list_all isDigit a" "list_all isDigit b" "list_all isDigit c"
  shows "isKeyShape (a @ ''-'' @ b @ ''-'' @ c)"
  using assms by (simp add: isKeyShape_def nth_append)

lemma format_ymd_shape:
  assumes "fourDigitDay d"
  shows "\<exists>k. format_ymd d = Some k \<and> isKeyShape k"
proof (cases d)
  case InvalidDate
  with assms show ?thesis by simp
next
  case (LocalDay y m dd)
  with assms have r: "- 9998 \<le> y" "y \<le> 9999" "m \<le> 12" "dd \<le> 31" by simp_all
  let ?yy = "nat (if y > 0 then y else 1 - y)"
  from r have "?yy < 10000" by auto
  then have ly: "length (addLeadingZeros ?yy 4) = 4"
    by (intro length_addLeadingZeros length_decimal_4)
  from r have "m < 100" "dd < 100" by auto
  then have lm: "length (addLeadingZeros m 2) = 2" and ld: "length (addLeadingZeros dd 2) = 2"
    by (auto intro!: length_addLeadingZeros length_decimal_2)
  have "isKeyShape (addLeadingZeros ?yy 4 @ ''-'' @ addLeadingZeros m 2 @ ''-'' @
       addLeadingZeros dd 2)"
    by (rule isKeyShape_concat [OF ly lm ld]) (rule addLeadingZeros_digits)+
  with LocalDay show ?thesis by simp
qed

lemma toKey_shaped [simp]: "isKeyShape k \<Longrightarrow> toKey env (Str k) = Some k"
  by (simp add: toKey.simps)

subsection \<open>The scan of the day list\<close>

lemma scanDays_set:
  "scanDays env eid sid ds (m, st) = Some (m', st') \<Longrightarrow>
   st' = st \<union> {k. \<exists>d\<in>set ds. toKey env (Str (date d)) = Some k \<and>
        \<not> isBefore (startOfDay (newDate env (k @ ''T00:00:00''))) (today env) \<and>
        dayHasAvailability eid sid d}"
proof (induction ds arbitrary: m st)
  case Nil
  then show ?case by simp
next
  case (Cons d ds)
  from Cons.prems obtain key where k: "toKey env (Str (date d)) = Some key"
    by (cases "toKey env (Str (date d))") simp_all
  show ?case
  proof (cases "isBefore (startOfDay (newDate env (key @ ''T00:00:00''))) (today env)")
    case True
    with Cons.prems k have "scanDays env eid sid ds (m(key \<mapsto> d), st) = Some (m', st')"
      by (simp add: Let_def)
    from Cons.IH [OF this] True k show ?thesis by auto
  next
    case False
    with Cons.prems k have "scanDays env eid sid ds
        (m(key \<mapsto> d), if dayHasAvailability eid sid d then insert key st else st) = Some (m', st')"
      by (simp add: Let_def)
    from Cons.IH [OF this] False k show ?thesis by (auto split: if_splits)
  qed
qed

lemma scanDays_None_iff:
  "scanDays env eid sid ds acc = None \<longleftrightarrow> (\<exists>d\<in>set ds. toKey env (Str (date d)) = None)"
proof (induction ds arbitrary: acc)
  case Nil
  then show ?case by simp
next
  case (Cons d ds)
  obtain m st where acc: "acc = (m, st)" by (cases acc)
  show ?case unfolding acc
    by (cases "toKey env (Str (date d))") (simp_all add: Let_def Cons.IH)
qed

lemma dayHasAvailability_spec:
  "(\<not> isBefore (startOfDay (newDate env (k @ ''T00:00:00''))) (today env) \<and>
     dayHasAvailability eid sid d) = spec_day_available env eid sid k d"
  by (auto simp: dayHasAvailability_def spec_day_available_def employee_entry_def
      startOfDay_def today_def list_ex_iff split: option.splits)

lemma scanDays_not_past:
  assumes "scanDays env eid sid ds (m, st) = Some (m', st')" and "key \<in> st'" and "key \<notin> st"
  shows "\<not> isBefore (startOfDay (newDate env (key @ ''T00:00:00''))) (today env)"
  using scanDays_set [OF assms(1)] assms(2,3) by auto

lemma hd_sort_filter_mem:
  assumes "sort (filter P ks) \<noteq> []"
  shows "P (hd (sort (filter P ks)))"
proof -
  from assms have "hd (sort (filter P ks)) \<in> set (sort (filter P ks))" by (rule hd_in_set)
  then show ?thesis by simp
qed

subsection \<open>The insertion-ordered map of services\<close>

lemma map_fst_map_set:
  "map fst (map_set k v m) = (if k \<in> fst ` set m then map fst m else map fst m @ [k])"
  by (induction m) (force split: if_splits)+

lemma set_map_set_subset: "set (map_set k v m) \<subseteq> insert (k, v) (set m)"
  by (induction m) (auto split: if_splits)

lemma svc_inv_map_set:
  assumes "svc_inv m A"
  shows "svc_inv (map_set (s_id s) s m) (insert s A)"
proof -
  have f: "fst ` set (map_set (s_id s) s m) = insert (s_id s) (fst ` set m)"
    using map_fst_map_set [of "s_id s" s m]
    by (metis (no_types, lifting) insert_absorb list.set_map set_append list.simps(15) Un_insert_right
        sup_bot.right_neutral empty_set)
  have d: "distinct (map fst (map_set (s_id s) s m))"
    using assms by (auto simp: map_fst_map_set svc_inv_def)
  have "\<forall>(k, v)\<in>set (map_set (s_id s) s m). s_id v = k \<and> v \<in> insert s A"
    using assms set_map_set_subset [of "s_id s" s m] by (auto simp: svc_inv_def)
  with f d assms show ?thesis by (auto simp: svc_inv_def)
qed

lemma svc_inv_fold:
  "svc_inv m A \<Longrightarrow> svc_inv (fold (\<lambda>s m. map_set (s_id s) s m) ss m) (A \<union> set ss)"
proof (induction ss arbitrary: m A)
  case Nil
  then show ?case by simp
next
  case (Cons s ss)
  from Cons.IH [OF svc_inv_map_set [OF Cons.prems, of s]] show ?case by simp
qed

lemma svc_inv_employees:
  "svc_inv m A \<Longrightarrow>
   svc_inv (fold (\<lambda>e m. if length (slots e) = 0 then m
                         else fold (\<lambda>s m. map_set (s_id s) s m) (services e) m) es m)
     (A \<union> (\<Union>e\<in>{e \<in> set es. slots e \<noteq> []}. set (services e)))"
proof (induction es arbitrary: m A)
  case Nil
  then show ?case by simp
next
  case (Cons e es)
  show ?case
  proof (cases "slots e = []")
    case True
    then have eq: "{x \<in> set (e # es). slots x \<noteq> []} = {x \<in> set es. slots x \<noteq> []}"
      by auto
    from Cons.IH [OF Cons.prems] True show ?thesis unfolding eq by simp
  next
    case False
    have eq: "A \<union> set (services e) \<union> (\<Union>e\<in>{e \<in> set es. slots e \<noteq> []}. set (services e))
      = A \<union> (\<Union>e\<in>{x \<in> set (e # es). slots x \<noteq> []}. set (services e))"
      using False by auto
    from Cons.IH [OF svc_inv_fold [OF Cons.prems, of "services e"]] False
    show ?thesis unfolding eq [symmetric] by simp
  qed
qed

subsection \<open>The fetch\<close>

lemma fetch_begin_valid:
  "fetch_begin (LocalDay y mo dd) s =
     (s\<lparr>loadingAvailability := True, error := ''''\<rparr>,
      [GetAvailability (the (format_ym (LocalDay y mo dd)))])"
  by (simp add: fetch_begin_def)

subsection \<open>Sorting keys and the earliest date\<close>

lemma those_map_Some:
  "those (map f xs) = Some ys \<Longrightarrow> set ys = {y. \<exists>x\<in>set xs. f x = Some y}"
proof (induction xs arbitrary: ys)
  case Nil
  then show ?case by simp
next
  case (Cons x xs)
  then show ?case by (auto split: option.splits)
qed

lemma those_map_None_iff:
  "those (map f xs) = None \<longleftrightarrow> (\<exists>x\<in>set xs. f x = None)"
  by (induction xs) (auto split: option.splits)

lemma hd_sort_least:
  assumes "xs \<noteq> []"
  shows "hd (sort xs) \<in> set xs \<and> (\<forall>x\<in>set xs. hd (sort xs) \<le> x)"
proof -
  from assms have ne: "sort xs \<noteq> []" by (metis length_0_conv length_sort)
  then obtain y ys where s: "sort xs = y # ys" by (cases "sort xs") auto
  have "sorted (y # ys)" unfolding s [symmetric] by simp
  then have "\<forall>x\<in>set (y # ys). y \<le> x" by auto
  moreover have "set (y # ys) = set xs" unfolding s [symmetric] by simp
  ultimately show ?thesis using s by auto
qed

lemma dayIndex_keys:
  assumes "dayIndex_memo env (Some a) eid sid = Some (m, st)" and "k \<in> st"
  shows "\<exists>d\<in>set (days a). toKey env (Str (date d)) = Some k \<and>
      dayHasAvailability eid sid d"
proof -
  from assms(1) have "scanDays env eid sid (days a) (Map.empty, {}) = Some (m, st)"
    by (simp add: dayIndex_memo_def)
  from scanDays_set [OF this] assms(2) show ?thesis by auto
qed

lemma earliest_is_least:
  assumes idx: "dayIndex_memo env (Some a) eid sid = Some (m, st)"
  shows "\<exists>e. earliestAvailableDate_memo env (Some a) st = Some e \<and>
     (st = {} \<longrightarrow> e = None) \<and>
     (st \<noteq> {} \<longrightarrow> (\<exists>k0\<in>st. (\<forall>k\<in>st. k0 \<le> k) \<and> e = Some (newDate env (k0 @ ''T00:00:00''))))"
proof (cases "st = {}")
  case True
  then show ?thesis by (simp add: earliestAvailableDate_memo_def)
next
  case False
  let ?f = "\<lambda>d. toKey env (Str (date d))"
  from idx have "scanDays env eid sid (days a) (Map.empty, {}) \<noteq> None"
    by (simp add: dayIndex_memo_def)
  then have "\<not> (\<exists>d\<in>set (days a). ?f d = None)"
    unfolding scanDays_None_iff .
  then have "those (map ?f (days a)) \<noteq> None"
    unfolding those_map_None_iff .
  then obtain ks where ks: "those (map ?f (days a)) = Some ks" by auto
  from those_map_Some [OF ks] have sk: "set ks = {y. \<exists>x\<in>set (days a). ?f x = Some y}" .
  have "st \<subseteq> set ks" using dayIndex_keys [OF idx] sk by auto
  then have fs: "set (filter (\<lambda>k. k \<in> st) ks) = st" by auto
  have ne: "filter (\<lambda>k. k \<in> st) ks \<noteq> []"
  proof
    assume "filter (\<lambda>k. k \<in> st) ks = []"
    then have "set (filter (\<lambda>k. k \<in> st) ks) = {}" by (simp only: set_empty)
    with fs False show False by simp
  qed
  let ?k0 = "hd (sort (filter (\<lambda>k. k \<in> st) ks))"
  from hd_sort_least [OF ne] fs have k0: "?k0 \<in> st" "\<forall>k\<in>st. ?k0 \<le> k" by auto
  from ne have "sort (filter (\<lambda>k. k \<in> st) ks) \<noteq> []" by (metis length_0_conv length_sort)
  with False ks have "earliestAvailableDate_memo env (Some a) st =
      Some (Some (newDate env (?k0 @ ''T00:00:00'')))"
    by (simp add: earliestAvailableDate_memo_def Let_def)
  with k0 False show ?thesis by blast
qed

lemma render_facts:
  assumes "render env r = Some dv"
  shows "dayIndex_memo env (availability r) (employeeId r) (serviceId r) =
           Some (daysByKey dv, availableDaySet dv)"
    and "earliestAvailableDate_memo env (availability r) (availableDaySet dv) =
           Some (earliestAvailableDate dv)"
    and "selectedDayData_memo env (availability r) (selectedDate r) (daysByKey dv) =
           Some (selectedDayData dv)"
  using assms by (auto simp: render_def split: option.splits prod.splits)

lemma render_selected_key:
  assumes "render env r = Some dv" and "availability r = Some a" and "selectedDate r = Some sd"
  shows "\<exists>k. toKey env (Dt sd) = Some k \<and> selectedDayData dv = daysByKey dv k"
  using render_facts(3) [OF assms(1)] assms(2,3)
  by (auto simp: selectedDayData_memo_def split: option.splits)

lemma render_selectedDayData_Some:
  assumes "render env r = Some dv" and "selectedDayData dv = Some sdd"
  shows "\<exists>a sd k. availability r = Some a \<and> selectedDate r = Some sd \<and>
      toKey env (Dt sd) = Some k \<and> daysByKey dv k = Some sdd"
  using render_facts(3) [OF assms(1)] assms(2)
  by (auto simp: selectedDayData_memo_def split: option.splits)

lemma toKey_Dt_valid: "sd \<noteq> InvalidDate \<Longrightarrow> \<exists>k. toKey env (Dt sd) = Some k"
  by (cases sd) (simp_all add: toKey.simps startOfDay_def)

lemma render_total:
  assumes "\<forall>a. availability r = Some a \<longrightarrow> (\<forall>d\<in>set (days a). isKeyShape (date d))"
    and "selectedDate r \<noteq> Some InvalidDate"
  shows "\<exists>dv. render env r = Some dv"
proof (cases "availability r")
  case None
  then show ?thesis
    by (simp add: render_def dayIndex_memo_def earliestAvailableDate_memo_def
        selectedDayData_memo_def)
next
  case (Some a)
  with assms(1) have sh: "\<forall>d\<in>set (days a). toKey env (Str (date d)) \<noteq> None" by simp
  then have "scanDays env (employeeId r) (serviceId r) (days a) (Map.empty, {}) \<noteq> None"
    unfolding scanDays_None_iff by simp
  then obtain m st where
    idx: "dayIndex_memo env (Some a) (employeeId r) (serviceId r) = Some (m, st)"
    by (auto simp: dayIndex_memo_def)
  from earliest_is_least [OF idx] obtain e where
    e: "earliestAvailableDate_memo env (Some a) st = Some e" by auto
  have "\<exists>x. selectedDayData_memo env (Some a) (selectedDate r) m = Some x"
  proof (cases "selectedDate r")
    case None
    then show ?thesis by (simp add: selectedDayData_memo_def)
  next
    case (Some sd)
    with assms(2) have "sd \<noteq> InvalidDate" by auto
    from toKey_Dt_valid [OF this, of env] obtain k where "toKey env (Dt sd) = Some k" by auto
    with Some show ?thesis
      by (simp add: selectedDayData_memo_def)
  qed
  with idx e Some show ?thesis by (auto simp: render_def)
qed

subsection \<open>The order of keys is the order of days\<close>

lemma isDigit_range: "isDigit c \<Longrightarrow> 48 \<le> (of_char c :: nat) \<and> (of_char c :: nat) \<le> 57"
  by (auto simp: isDigit_def)

lemma digitVal_le9: "isDigit c \<Longrightarrow> digitVal c \<le> 9"
  using isDigit_range [of c] by (auto simp: digitVal_def)

lemma digit_less: "isDigit a \<Longrightarrow> isDigit b \<Longrightarrow> (a < b) = (digitVal a < digitVal b)"
  using isDigit_range [of a] isDigit_range [of b]
  by (auto simp: digitVal_def less_char_def)

lemma digit_eq: "isDigit a \<Longrightarrow> isDigit b \<Longrightarrow> (a = b) = (digitVal a = digitVal b)"
proof -
  assume d: "isDigit a" "isDigit b"
  have "(a = b) = ((of_char a :: nat) = of_char b)" by simp
  also have "\<dots> = (digitVal a = digitVal b)"
    using isDigit_range [OF d(1)] isDigit_range [OF d(2)] unfolding digitVal_def by arith
  finally show ?thesis .
qed

lemma lex2: "b \<le> 9 \<Longrightarrow> d \<le> 9 \<Longrightarrow> ((10::nat) * a + b < 10 * c + d) = (a < c \<or> a = c \<and> b < d)"
  by auto

lemma eq2:
  assumes "b \<le> 9" "d \<le> 9"
  shows "((10::nat) * a + b = 10 * c + d) = (a = c \<and> b = d)"
proof
  assume e: "10 * a + b = 10 * c + d"
  have "a = c"
  proof (rule ccontr)
    assume "a \<noteq> c"
    then consider "a < c" | "c < a" by linarith
    then show False using e assms by cases linarith+
  qed
  with e show "a = c \<and> b = d" by simp
qed simp

lemma length10:
  assumes "length a = 10"
  shows "a = [a!0, a!1, a!2, a!3, a!4, a!5, a!6, a!7, a!8, a!9]"
proof (rule nth_equalityI)
  show "length a = length [a!0, a!1, a!2, a!3, a!4, a!5, a!6, a!7, a!8, a!9]"
    using assms by simp
next
  fix i assume "i < length a"
  with assms have "i \<in> {0,1,2,3,4,5,6,7,8,9}" by auto
  then show "a ! i = [a!0, a!1, a!2, a!3, a!4, a!5, a!6, a!7, a!8, a!9] ! i"
    by auto
qed

lemma key_nth:
  assumes "isKeyShape a"
  shows "a = [a!0, a!1, a!2, a!3, CHR ''-'', a!5, a!6, CHR ''-'', a!8, a!9]"
    and "isDigit (a!0)" "isDigit (a!1)" "isDigit (a!2)" "isDigit (a!3)" "isDigit (a!5)"
    "isDigit (a!6)" "isDigit (a!8)" "isDigit (a!9)"
proof -
  from assms have "length a = 10" by (simp add: isKeyShape_def)
  from length10 [OF this] have a: "a = [a!0, a!1, a!2, a!3, a!4, a!5, a!6, a!7, a!8, a!9]" .
  from assms have s: "a!4 = CHR ''-''" "a!7 = CHR ''-''"
    by (simp_all add: isKeyShape_def)
  from assms have "list_all isDigit (take 4 a)" "list_all isDigit (take 2 (drop 5 a))"
    "list_all isDigit (drop 8 a)" by (simp_all add: isKeyShape_def)
  then have "list_all isDigit (take 4 [a!0, a!1, a!2, a!3, a!4, a!5, a!6, a!7, a!8, a!9])"
    "list_all isDigit (take 2 (drop 5 [a!0, a!1, a!2, a!3, a!4, a!5, a!6, a!7, a!8, a!9]))"
    "list_all isDigit (drop 8 [a!0, a!1, a!2, a!3, a!4, a!5, a!6, a!7, a!8, a!9])"
    using a by simp_all
  then show "isDigit (a!0)" "isDigit (a!1)" "isDigit (a!2)" "isDigit (a!3)" "isDigit (a!5)"
    "isDigit (a!6)" "isDigit (a!8)" "isDigit (a!9)" by simp_all
  from a s show "a = [a!0, a!1, a!2, a!3, CHR ''-'', a!5, a!6, CHR ''-'', a!8, a!9]" by simp
qed

lemma lex_explicit:
  assumes "isDigit a0" "isDigit a1" "isDigit a2" "isDigit a3" "isDigit a5" "isDigit a6"
    "isDigit a8" "isDigit a9"
    and "isDigit b0" "isDigit b1" "isDigit b2" "isDigit b3" "isDigit b5" "isDigit b6"
    "isDigit b8" "isDigit b9"
  shows "([a0, a1, a2, a3, CHR ''-'', a5, a6, CHR ''-'', a8, a9] <
          [b0, b1, b2, b3, CHR ''-'', b5, b6, CHR ''-'', b8, b9]) =
     isBefore (keyDay [a0, a1, a2, a3, CHR ''-'', a5, a6, CHR ''-'', a8, a9])
       (keyDay [b0, b1, b2, b3, CHR ''-'', b5, b6, CHR ''-'', b8, b9])"
proof -
  note le = assms [THEN digitVal_le9]
  have l: "([a0, a1, a2, a3, CHR ''-'', a5, a6, CHR ''-'', a8, a9] <
          [b0, b1, b2, b3, CHR ''-'', b5, b6, CHR ''-'', b8, b9]) =
    (digitVal a0 < digitVal b0 \<or> digitVal a0 = digitVal b0 \<and>
    (digitVal a1 < digitVal b1 \<or> digitVal a1 = digitVal b1 \<and>
    (digitVal a2 < digitVal b2 \<or> digitVal a2 = digitVal b2 \<and>
    (digitVal a3 < digitVal b3 \<or> digitVal a3 = digitVal b3 \<and>
    (digitVal a5 < digitVal b5 \<or> digitVal a5 = digitVal b5 \<and>
    (digitVal a6 < digitVal b6 \<or> digitVal a6 = digitVal b6 \<and>
    (digitVal a8 < digitVal b8 \<or> digitVal a8 = digitVal b8 \<and>
    (digitVal a9 < digitVal b9))))))))"
    using assms by (simp add: digit_less digit_eq)
  let ?a = "[a0, a1, a2, a3, CHR ''-'', a5, a6, CHR ''-'', a8, a9]"
  let ?b = "[b0, b1, b2, b3, CHR ''-'', b5, b6, CHR ''-'', b8, b9]"
  have v: "numeral_of (take 4 ?a) =
      10 * (10 * (10 * digitVal a0 + digitVal a1) + digitVal a2) + digitVal a3"
    "numeral_of (take 2 (drop 5 ?a)) = 10 * digitVal a5 + digitVal a6"
    "numeral_of (drop 8 ?a) = 10 * digitVal a8 + digitVal a9"
    "numeral_of (take 4 ?b) =
      10 * (10 * (10 * digitVal b0 + digitVal b1) + digitVal b2) + digitVal b3"
    "numeral_of (take 2 (drop 5 ?b)) = 10 * digitVal b5 + digitVal b6"
    "numeral_of (drop 8 ?b) = 10 * digitVal b8 + digitVal b9"
    by (simp_all add: numeral_of_def)
  have r0: "isBefore (keyDay ?a) (keyDay ?b) =
    (numeral_of (take 4 ?a) < numeral_of (take 4 ?b) \<or>
     numeral_of (take 4 ?a) = numeral_of (take 4 ?b) \<and>
     (numeral_of (take 2 (drop 5 ?a)) < numeral_of (take 2 (drop 5 ?b)) \<or>
      numeral_of (take 2 (drop 5 ?a)) = numeral_of (take 2 (drop 5 ?b)) \<and>
      numeral_of (drop 8 ?a) < numeral_of (drop 8 ?b)))"
    unfolding keyDay_def isBefore.simps of_nat_less_iff of_nat_eq_iff ..
  show ?thesis unfolding l r0 v using le
    by (simp only: lex2 eq2) blast
qed

lemma shaped_less_chron:
  assumes "isKeyShape a" "isKeyShape b"
  shows "(a < b) = isBefore (keyDay a) (keyDay b)"
proof -
  note ka = key_nth [OF assms(1)] and kb = key_nth [OF assms(2)]
  define A where "A = [a!0, a!1, a!2, a!3, CHR ''-'', a!5, a!6, CHR ''-'', a!8, a!9]"
  define B where "B = [b!0, b!1, b!2, b!3, CHR ''-'', b!5, b!6, CHR ''-'', b!8, b!9]"
  have a: "a = A" unfolding A_def by (rule ka(1))
  have b: "b = B" unfolding B_def by (rule kb(1))
  have "(A < B) = isBefore (keyDay A) (keyDay B)"
    unfolding A_def B_def by (rule lex_explicit) (rule ka kb)+
  then show ?thesis unfolding a b .
qed

lemma shaped_le_chron:
  assumes "isKeyShape a" "isKeyShape b"
  shows "(a \<le> b) = (\<not> isBefore (keyDay b) (keyDay a))"
  using shaped_less_chron [OF assms(2,1)] by (simp add: not_less [symmetric])

subsection \<open>What one pass of effects can change\<close>

lemma fetch_begin_frame:
  "serviceId (fst (fetch_begin mth r)) = serviceId r \<and>
   employeeId (fst (fetch_begin mth r)) = employeeId r \<and>
   selectedSlot (fst (fetch_begin mth r)) = selectedSlot r \<and>
   selectedDate (fst (fetch_begin mth r)) = selectedDate r"
  by (cases mth) (simp_all add: fetch_begin_def catch_fetch_def rangeError_def)

lemma dateValidity_frame:
  assumes "effect_dateValidity env r dv p = Some p'"
  shows "serviceId p' = serviceId p" "employeeId p' = employeeId p"
    "selectedSlot p' = selectedSlot p \<or> selectedSlot p' = ''''"
  using assms
  by (auto simp: effect_dateValidity_def split: option.splits if_splits)

lemma dateChange_frame:
  "serviceId (effect_dateChange p) = serviceId p"
  "employeeId (effect_dateChange p) = employeeId p"
  "selectedDate (effect_dateChange p) = selectedDate p"
  "selectedSlot (effect_dateChange p) = ''''"
  by (simp_all add: effect_dateChange_def)

lemma employeeChange_frame:
  assumes "effect_employeeChange env r dv p = Some p'"
  shows "serviceId p' = serviceId p \<or> serviceId p' = ''''" "employeeId p' = employeeId p"
    "selectedSlot p' = selectedSlot p \<or> selectedSlot p' = ''''"
    "selectedDate p' = selectedDate p \<or>
       (selectedDate p' = earliestAvailableDate dv \<and> earliestAvailableDate dv \<noteq> None)"
  using assms
  by (auto simp: effect_employeeChange_def Let_def split: option.splits if_splits)

lemma serviceChange_frame:
  "serviceId (effect_serviceChange r dv p) = serviceId p"
  "employeeId (effect_serviceChange r dv p) = employeeId p \<or>
     employeeId (effect_serviceChange r dv p) = ''''"
  "selectedSlot (effect_serviceChange r dv p) = selectedSlot p \<or>
     selectedSlot (effect_serviceChange r dv p) = ''''"
  "employeeId (effect_serviceChange r dv p) \<noteq> employeeId p \<Longrightarrow>
     selectedSlot (effect_serviceChange r dv p) = ''''"
  "selectedDate (effect_serviceChange r dv p) = selectedDate p"
  by (auto simp: effect_serviceChange_def split: option.splits)

lemma run_effects_steps:
  assumes "run_effects env fired r = Some (p, reqs)"
  obtains dv p0 p1 p2 p3 where "render env r = Some dv"
    and "p0 = (if MonthChange \<in> fired then fst (fetch_begin (month r) r) else r)"
    and "if DateValidity \<in> fired then effect_dateValidity env r dv p0 = Some p1 else p1 = p0"
    and "p2 = (if DateChange \<in> fired then effect_dateChange p1 else p1)"
    and "if EmployeeChange \<in> fired then effect_employeeChange env r dv p2 = Some p3
         else p3 = p2"
    and "p = (if ServiceChange \<in> fired then effect_serviceChange r dv p3 else p3)"
  using assms unfolding run_effects_def
  by (auto simp: Let_def split: option.splits prod.splits if_splits)

lemma dateValidity_total:
  assumes "render env r = Some dv"
  shows "\<exists>p'. effect_dateValidity env r dv p = Some p'"
proof (cases "availability r")
  case None
  then show ?thesis by (simp add: effect_dateValidity_def)
next
  case (Some a)
  show ?thesis
  proof (cases "selectedDate r")
    case None
    with Some show ?thesis by (simp add: effect_dateValidity_def)
  next
    case sd: (Some sd)
    from render_selected_key [OF assms Some sd] obtain k where "toKey env (Dt sd) = Some k"
      by blast
    with Some sd show ?thesis by (simp add: effect_dateValidity_def)
  qed
qed

lemma employeeChange_total:
  assumes "render env r = Some dv"
  shows "\<exists>p'. effect_employeeChange env r dv p = Some p'"
proof (cases "selectedDayData dv")
  case None
  then show ?thesis by (simp add: effect_employeeChange_def)
next
  case (Some sdd)
  from render_selectedDayData_Some [OF assms Some] obtain sd k where
    "selectedDate r = Some sd" "toKey env (Dt sd) = Some k" by blast
  with Some show ?thesis
    by (simp add: effect_employeeChange_def Let_def split: option.splits)
qed

lemma run_effects_total:
  assumes "render env r = Some dv"
  shows "\<exists>p reqs. run_effects env fired r = Some (p, reqs)"
proof -
  obtain p0 reqs where f: "(if MonthChange \<in> fired then fetch_begin (month r) r else (r, []))
      = (p0, reqs)" by (cases "if MonthChange \<in> fired then fetch_begin (month r) r else (r, [])")
  obtain p1 where p1: "(if DateValidity \<in> fired then effect_dateValidity env r dv p0
      else Some p0) = Some p1"
    using dateValidity_total [OF assms, of p0] by (cases "DateValidity \<in> fired") auto
  let ?p2 = "if DateChange \<in> fired then effect_dateChange p1 else p1"
  obtain p3 where p3: "(if EmployeeChange \<in> fired then effect_employeeChange env r dv ?p2
      else Some ?p2) = Some p3"
    using employeeChange_total [OF assms, of ?p2] by (cases "EmployeeChange \<in> fired") auto
  show ?thesis unfolding run_effects_def using assms f p1 p3
    by (simp add: Let_def)
qed

lemma run_effects_frame:
  assumes "run_effects env fired r = Some (p, reqs)"
  shows "serviceId p = serviceId r \<or> serviceId p = ''''"
    and "employeeId p = employeeId r \<or> employeeId p = ''''"
    and "selectedSlot p = selectedSlot r \<or> selectedSlot p = ''''"
    and "employeeId p \<noteq> employeeId r \<Longrightarrow> selectedSlot p = ''''"
proof -
  from assms obtain dv p0 p1 p2 p3 where
    p0: "p0 = (if MonthChange \<in> fired then fst (fetch_begin (month r) r) else r)"
    and p1: "if DateValidity \<in> fired then effect_dateValidity env r dv p0 = Some p1 else p1 = p0"
    and p2: "p2 = (if DateChange \<in> fired then effect_dateChange p1 else p1)"
    and p3: "if EmployeeChange \<in> fired then effect_employeeChange env r dv p2 = Some p3
         else p3 = p2"
    and p: "p = (if ServiceChange \<in> fired then effect_serviceChange r dv p3 else p3)"
    by (rule run_effects_steps)
  have a0: "serviceId p0 = serviceId r" "employeeId p0 = employeeId r"
    "selectedSlot p0 = selectedSlot r"
    unfolding p0 using fetch_begin_frame [of "month r" r] by simp_all
  have a1: "serviceId p1 = serviceId p0" "employeeId p1 = employeeId p0"
    "selectedSlot p1 = selectedSlot p0 \<or> selectedSlot p1 = ''''"
    using p1 dateValidity_frame [of env r dv p0 p1] by (cases "DateValidity \<in> fired"; simp)+
  have a2: "serviceId p2 = serviceId p1" "employeeId p2 = employeeId p1"
    "selectedSlot p2 = selectedSlot p1 \<or> selectedSlot p2 = ''''"
    unfolding p2 by (simp_all add: dateChange_frame)
  have a3: "serviceId p3 = serviceId p2 \<or> serviceId p3 = ''''" "employeeId p3 = employeeId p2"
    "selectedSlot p3 = selectedSlot p2 \<or> selectedSlot p3 = ''''"
    using p3 employeeChange_frame [of env r dv p2 p3] by (cases "EmployeeChange \<in> fired"; simp)+
  have a4: "serviceId p = serviceId p3" "employeeId p = employeeId p3 \<or> employeeId p = ''''"
    "selectedSlot p = selectedSlot p3 \<or> selectedSlot p = ''''"
    "employeeId p \<noteq> employeeId p3 \<Longrightarrow> selectedSlot p = ''''"
    unfolding p using serviceChange_frame [of r dv p3] by (cases "ServiceChange \<in> fired"; simp)+
  from a0 a1 a2 a3 a4 show "serviceId p = serviceId r \<or> serviceId p = ''''" by metis
  from a0 a1 a2 a3 a4 show "employeeId p = employeeId r \<or> employeeId p = ''''" by metis
  from a0 a1 a2 a3 a4 show "selectedSlot p = selectedSlot r \<or> selectedSlot p = ''''" by metis
  from a0 a1 a2 a3 a4 show "employeeId p \<noteq> employeeId r \<Longrightarrow> selectedSlot p = ''''" by metis
qed

lemma run_passes_keep_cleared:
  assumes "run_passes env fs s = Some s'"
  shows "serviceId s = '''' \<Longrightarrow> serviceId s' = ''''"
    and "employeeId s = '''' \<Longrightarrow> employeeId s' = ''''"
    and "selectedSlot s = '''' \<Longrightarrow> selectedSlot s' = ''''"
  using assms
proof (induction fs arbitrary: s)
  case Nil
  { case 1 then show ?case by simp }
  { case 2 then show ?case by simp }
  { case 3 then show ?case by simp }
next
  case (Cons f fs)
  { case 1
    then obtain p reqs where r: "run_effects env f s = Some (p, reqs)"
      and n: "run_passes env fs p = Some s'" by (auto split: option.splits)
    from run_effects_frame(1) [OF r] 1(1) have "serviceId p = ''''" by auto
    from Cons.IH(1) [OF this n] show ?case . }
  { case 2
    then obtain p reqs where r: "run_effects env f s = Some (p, reqs)"
      and n: "run_passes env fs p = Some s'" by (auto split: option.splits)
    from run_effects_frame(2) [OF r] 2(1) have "employeeId p = ''''" by auto
    from Cons.IH(2) [OF this n] show ?case . }
  { case 3
    then obtain p reqs where r: "run_effects env f s = Some (p, reqs)"
      and n: "run_passes env fs p = Some s'" by (auto split: option.splits)
    from run_effects_frame(3) [OF r] 3(1) have "selectedSlot p = ''''" by auto
    from Cons.IH(3) [OF this n] show ?case . }
qed

lemma dateValidity_invalid:
  assumes "availability r = Some a"
    and "case selectedDate r of None \<Rightarrow> True
         | Some sd \<Rightarrow> toKey env (Dt sd) \<notin> Some ` availableDaySet dv"
    and "effect_dateValidity env r dv p = Some p'"
  shows "p' = (case earliestAvailableDate dv of
                 Some e \<Rightarrow> p\<lparr>selectedDate := Some e\<rparr>
               | None \<Rightarrow> p\<lparr>selectedDate := None, selectedSlot := ''''\<rparr>)"
  using assms
  by (auto simp: effect_dateValidity_def split: option.splits if_splits)

lemma pass_revalidates:
  assumes rd: "render env r = Some dv"
    and av: "availability r = Some a"
    and fired: "DateValidity \<in> fired"
    and inval: "case selectedDate r of None \<Rightarrow> True
         | Some sd \<Rightarrow> toKey env (Dt sd) \<notin> Some ` availableDaySet dv"
  shows "\<exists>p reqs. run_effects env fired r = Some (p, reqs) \<and>
     (case earliestAvailableDate dv of
        Some e \<Rightarrow> selectedDate p = Some e
      | None \<Rightarrow> selectedDate p = None \<and> selectedSlot p = '''')"
proof -
  from run_effects_total [OF rd] obtain p reqs where
    run: "run_effects env fired r = Some (p, reqs)" by blast
  from run obtain dv' p0 p1 p2 p3 where rd': "render env r = Some dv'"
    and p1: "if DateValidity \<in> fired then effect_dateValidity env r dv' p0 = Some p1 else p1 = p0"
    and p2: "p2 = (if DateChange \<in> fired then effect_dateChange p1 else p1)"
    and p3: "if EmployeeChange \<in> fired then effect_employeeChange env r dv' p2 = Some p3
         else p3 = p2"
    and p: "p = (if ServiceChange \<in> fired then effect_serviceChange r dv' p3 else p3)"
    by (rule run_effects_steps)
  from rd rd' have dv: "dv' = dv" by simp
  from p1 fired have "effect_dateValidity env r dv p0 = Some p1" by (simp add: dv)
  from dateValidity_invalid [OF av inval this]
  have v: "p1 = (case earliestAvailableDate dv of
                 Some e \<Rightarrow> p0\<lparr>selectedDate := Some e\<rparr>
               | None \<Rightarrow> p0\<lparr>selectedDate := None, selectedSlot := ''''\<rparr>)" .
  have a2: "selectedDate p2 = selectedDate p1"
    "selectedSlot p1 = '''' \<Longrightarrow> selectedSlot p2 = ''''"
    unfolding p2 by (simp_all add: dateChange_frame)
  have a3: "selectedDate p3 = selectedDate p2 \<or>
      (selectedDate p3 = earliestAvailableDate dv \<and> earliestAvailableDate dv \<noteq> None)"
    "selectedSlot p3 = selectedSlot p2 \<or> selectedSlot p3 = ''''"
    using p3 employeeChange_frame [of env r dv p2 p3]
    by (cases "EmployeeChange \<in> fired"; simp add: dv)+
  have a4: "selectedDate p = selectedDate p3"
    "selectedSlot p = selectedSlot p3 \<or> selectedSlot p = ''''"
    unfolding p using serviceChange_frame [of r dv' p3] by (cases "ServiceChange \<in> fired"; simp)+
  show ?thesis
  proof (cases "earliestAvailableDate dv")
    case None
    with v have "selectedDate p1 = None" "selectedSlot p1 = ''''" by simp_all
    with a2 a3 a4 None have "selectedDate p = None \<and> selectedSlot p = ''''" by metis
    with run None show ?thesis by simp
  next
    case (Some e)
    with v have "selectedDate p1 = Some e" by simp
    with a2 a3 a4 Some have "selectedDate p = Some e" by metis
    with run Some show ?thesis by simp
  qed
qed

lemma available_keys_shaped:
  assumes "dayIndex_memo env (Some a) eid sid = Some (m, st)"
    and "\<forall>d\<in>set (days a). isKeyShape (date d)" and "k \<in> st"
  shows "isKeyShape k"
proof -
  from dayIndex_keys [OF assms(1,3)] obtain d where
    d: "d \<in> set (days a)" "toKey env (Str (date d)) = Some k" by blast
  with assms(2) have sh: "isKeyShape (date d)" by blast
  from toKey_shaped [OF sh, of env] d(2) have "date d = k" by simp
  with sh show ?thesis by simp
qed


lemma scanDays_map_sound:
  "scanDays env eid sid ds (m, st) = Some (m', st') \<Longrightarrow> m' k = Some d \<Longrightarrow>
   m k = Some d \<or> (d \<in> set ds \<and> toKey env (Str (date d)) = Some k)"
proof (induction ds arbitrary: m st)
  case Nil
  then show ?case by simp
next
  case (Cons x ds)
  from Cons.prems(1) obtain key where k: "toKey env (Str (date x)) = Some key"
    by (cases "toKey env (Str (date x))") simp_all
  from Cons.prems(1) k obtain st1 where
    "scanDays env eid sid ds (m(key \<mapsto> x), st1) = Some (m', st')"
    by (auto simp: Let_def split: if_splits)
  from Cons.IH [OF this Cons.prems(2)] k show ?case
    by (auto split: if_splits)
qed

lemma scanDays_map_dom:
  "scanDays env eid sid ds (m, st) = Some (m', st') \<Longrightarrow>
   m k \<noteq> None \<or> (\<exists>d\<in>set ds. toKey env (Str (date d)) = Some k) \<Longrightarrow> m' k \<noteq> None"
proof (induction ds arbitrary: m st)
  case Nil
  then show ?case by simp
next
  case (Cons x ds)
  from Cons.prems(1) obtain key where k: "toKey env (Str (date x)) = Some key"
    by (cases "toKey env (Str (date x))") simp_all
  from Cons.prems(1) k obtain st1 where
    s: "scanDays env eid sid ds (m(key \<mapsto> x), st1) = Some (m', st')"
    by (auto simp: Let_def split: if_splits)
  from Cons.prems(2) k have "(m(key \<mapsto> x)) k \<noteq> None \<or>
      (\<exists>d\<in>set ds. toKey env (Str (date d)) = Some k)" by auto
  from Cons.IH [OF s this] show ?case .
qed

lemma zero_slots_not_available:
  assumes rd: "render env r = Some dv"
    and av: "availability r = Some a"
    and shaped: "\<forall>d\<in>set (days a). isKeyShape (date d)"
    and dist: "distinct (map date (days a))"
    and zero: "case selectedDayData dv of None \<Rightarrow> True
         | Some sdd \<Rightarrow> \<not> dayHasAvailability (employeeId r) (serviceId r) sdd"
  shows "case selectedDate r of None \<Rightarrow> True
         | Some sd \<Rightarrow> toKey env (Dt sd) \<notin> Some ` availableDaySet dv"
proof (cases "selectedDate r")
  case None
  then show ?thesis by simp
next
  case (Some sd)
  from render_selected_key [OF rd av Some] obtain k where
    k: "toKey env (Dt sd) = Some k" "selectedDayData dv = daysByKey dv k" by blast
  from render_facts(1) [OF rd] av
  have idx: "dayIndex_memo env (Some a) (employeeId r) (serviceId r) =
      Some (daysByKey dv, availableDaySet dv)" by simp
  then have sc: "scanDays env (employeeId r) (serviceId r) (days a) (Map.empty, {}) =
      Some (daysByKey dv, availableDaySet dv)" by (simp add: dayIndex_memo_def)
  have "k \<notin> availableDaySet dv"
  proof
    assume "k \<in> availableDaySet dv"
    from dayIndex_keys [OF idx this] obtain d where d: "d \<in> set (days a)"
      "toKey env (Str (date d)) = Some k" "dayHasAvailability (employeeId r) (serviceId r) d"
      by blast
    from scanDays_map_dom [OF sc, of k] d(1,2) obtain sdd where
      sdd: "daysByKey dv k = Some sdd" by auto
    from scanDays_map_sound [OF sc sdd] have s: "sdd \<in> set (days a)"
      "toKey env (Str (date sdd)) = Some k" by simp_all
    from shaped d(1) s(1) have "isKeyShape (date d)" "isKeyShape (date sdd)" by blast+
    with d(2) s(2) have "date d = date sdd" by simp
    with dist d(1) s(1) have "d = sdd" by (meson distinct_map inj_onD)
    with zero k(2) sdd d(3) show False by simp
  qed
  with Some k(1) show ?thesis by auto
qed

lemma revalidation_result:
  assumes rd: "render env r = Some dv"
    and av: "availability r = Some a"
    and shaped: "\<forall>d\<in>set (days a). isKeyShape (date d)"
    and fired: "DateValidity \<in> fired"
    and inval: "case selectedDate r of None \<Rightarrow> True
         | Some sd \<Rightarrow> toKey env (Dt sd) \<notin> Some ` availableDaySet dv"
  shows "\<exists>p reqs. run_effects env fired r = Some (p, reqs) \<and>
        (availableDaySet dv = {} \<longrightarrow> selectedDate p = None \<and> selectedSlot p = '''') \<and>
        (availableDaySet dv \<noteq> {} \<longrightarrow>
           (\<exists>k0\<in>availableDaySet dv.
              (\<forall>k\<in>availableDaySet dv. \<not> isBefore (keyDay k) (keyDay k0)) \<and>
              selectedDate p = Some (newDate env (k0 @ ''T00:00:00''))))"
proof -
  let ?st = "availableDaySet dv"
  from render_facts(1) [OF rd] av
  have idx: "dayIndex_memo env (Some a) (employeeId r) (serviceId r) = Some (daysByKey dv, ?st)"
    by simp
  from earliest_is_least [OF idx] render_facts(2) [OF rd] av
  have e0: "?st = {} \<longrightarrow> earliestAvailableDate dv = None"
    and e1: "?st \<noteq> {} \<longrightarrow> (\<exists>k0\<in>?st. (\<forall>k\<in>?st. k0 \<le> k) \<and>
        earliestAvailableDate dv = Some (newDate env (k0 @ ''T00:00:00'')))"
    by auto
  have chron: "\<not> isBefore (keyDay k) (keyDay k0)" if "k0 \<in> ?st" "k \<in> ?st" "k0 \<le> k" for k k0
    using shaped_le_chron [OF available_keys_shaped [OF idx shaped that(1)]
        available_keys_shaped [OF idx shaped that(2)]] that(3) by simp
  from pass_revalidates [OF rd av fired inval] obtain p reqs where
    run: "run_effects env fired r = Some (p, reqs)"
    and res: "case earliestAvailableDate dv of
        Some e \<Rightarrow> selectedDate p = Some e
      | None \<Rightarrow> selectedDate p = None \<and> selectedSlot p = ''''" by blast
  have "(?st = {} \<longrightarrow> selectedDate p = None \<and> selectedSlot p = '''') \<and>
        (?st \<noteq> {} \<longrightarrow>
           (\<exists>k0\<in>?st. (\<forall>k\<in>?st. \<not> isBefore (keyDay k) (keyDay k0)) \<and>
              selectedDate p = Some (newDate env (k0 @ ''T00:00:00''))))"
  proof (cases "?st = {}")
    case True
    with e0 res show ?thesis by simp
  next
    case False
    with e1 obtain k0 where k0: "k0 \<in> ?st" "\<forall>k\<in>?st. k0 \<le> k"
      "earliestAvailableDate dv = Some (newDate env (k0 @ ''T00:00:00''))" by blast
    from k0(1,2) chron have "\<forall>k\<in>?st. \<not> isBefore (keyDay k) (keyDay k0)" by blast
    moreover from k0(3) res have "selectedDate p = Some (newDate env (k0 @ ''T00:00:00''))"
      by simp
    ultimately show ?thesis using False k0(1) by blast
  qed
  with run show ?thesis by blast
qed


lemma decimal_nonempty: "decimal n \<noteq> []"
  by (subst decimal.simps) simp

lemma String_num_nonempty: "String_num n \<noteq> ''''"
  by (simp add: String_num_def decimal_nonempty)

lemma employeeChange_clears:
  assumes "effect_employeeChange env r dv p = Some p'" and "employeeId r \<noteq> ''''"
    and "selectedDayData dv = Some sdd"
    and "find (\<lambda>e. String_num (e_id e) = employeeId r) (employees sdd) = Some emp"
  shows "selectedSlot p' = ''''"
    and "serviceId r \<noteq> '''' \<Longrightarrow>
         \<not> list_ex (\<lambda>s. String_num (s_id s) = serviceId r) (services emp) \<Longrightarrow>
         serviceId p' = ''''"
  using assms
  by (auto simp: effect_employeeChange_def Let_def split: option.splits if_splits)

lemma serviceChange_clears:
  assumes "serviceId r \<noteq> ''''" "employeeId r \<noteq> ''''" "selectedDayData dv = Some sdd"
    and "case find (\<lambda>e. String_num (e_id e) = employeeId r) (employees sdd) of
           None \<Rightarrow> True
         | Some emp \<Rightarrow> \<not> list_ex (\<lambda>s. String_num (s_id s) = serviceId r) (services emp)"
  shows "employeeId (effect_serviceChange r dv p) = ''''"
    and "selectedSlot (effect_serviceChange r dv p) = ''''"
  using assms by (auto simp: effect_serviceChange_def split: option.splits)

lemma picked_employee_found:
  assumes "eid \<in> set (map (\<lambda>e. String_num (e_id e)) (employeesForUI_memo sel sid))"
  shows "eid \<noteq> '''' \<and> (\<exists>sdd emp. sel = Some sdd \<and>
     find (\<lambda>e. String_num (e_id e) = eid) (employees sdd) = Some emp)"
proof (cases sel)
  case None
  with assms show ?thesis by (simp add: employeesForUI_memo_def)
next
  case (Some sdd)
  with assms obtain e where e: "e \<in> set (employees sdd)" "String_num (e_id e) = eid"
    by (auto simp: employeesForUI_memo_def Let_def split: if_splits)
  then have "find (\<lambda>e. String_num (e_id e) = eid) (employees sdd) \<noteq> None"
    by (auto simp: find_None_iff)
  with Some e(2) String_num_nonempty [of "e_id e"] show ?thesis by auto
qed


subsection \<open>Which effects a change fires\<close>

lemma deps_changed_employee:
  assumes "deps_changed prev r \<subseteq> fired" and "employeeId r \<noteq> employeeId prev"
  shows "DateValidity \<in> fired" "EmployeeChange \<in> fired" "ServiceChange \<in> fired"
  using assms by (auto simp: deps_changed_def)

lemma deps_changed_service:
  assumes "deps_changed prev r \<subseteq> fired" and "serviceId r \<noteq> serviceId prev"
  shows "DateValidity \<in> fired" "ServiceChange \<in> fired"
  using assms by (auto simp: deps_changed_def)

lemma deps_changed_date:
  assumes "deps_changed prev r \<subseteq> fired" and "selectedDate r \<noteq> selectedDate prev"
  shows "DateChange \<in> fired"
  using assms by (auto simp: deps_changed_def)

subsection \<open>Evaluation of the example data\<close>

lemmas demo_facts =
  demo_env_def demo_snapshot_def day03_def day10_def day12_def empA_def empB_def svc1_def
  svc2_def dayIndex_memo_def dayHasAvailability_def today_def startOfDay_def
  spec_day_available_def employee_entry_def String_num_def decimal.simps digitChar_def
  Let_def isKeyShape_def isDigit_def toKey.simps

subsection \<open>Passes on the example states\<close>

lemmas pass_facts =
  run_effects_def render_def earliestAvailableDate_memo_def selectedDayData_memo_def
  effect_dateValidity_def effect_dateChange_def effect_employeeChange_def
  effect_serviceChange_def demo_state_def addLeadingZeros_def

lemma demo_shaped: "\<forall>d\<in>set (days demo_snapshot). isKeyShape (date d)"
  by (simp add: demo_facts)

lemma demo_fresh_pass:
  "run_effects demo_env {DateValidity} demo_fresh =
     Some (demo_fresh\<lparr>selectedDate := Some (LocalDay 2025 3 10)\<rparr>, [])"
  by (simp add: demo_fresh_def pass_facts demo_facts)

lemma demo_pickA_pass:
  "run_effects demo_env {DateValidity, EmployeeChange, ServiceChange} demo_pickA =
     Some (demo_pickA\<lparr>selectedDate := Some (LocalDay 2025 3 10)\<rparr>, [])"
  by (simp add: demo_pickA_def pass_facts demo_facts)

lemma demo_pickA_service2_pass:
  "run_effects demo_env {DateValidity, EmployeeChange, ServiceChange} demo_pickA_service2 =
     Some (demo_pickA_service2\<lparr>selectedDate := None, serviceId := '''', employeeId := ''''\<rparr>, [])"
  by (simp add: demo_pickA_service2_def pass_facts demo_facts)

lemma demo_service1_pass:
  "run_effects demo_env {DateValidity, ServiceChange} demo_service1 =
     Some (demo_service1\<lparr>selectedDate := None, employeeId := '''', selectedSlot := ''''\<rparr>, [])"
  by (simp add: demo_service1_def pass_facts demo_facts)

lemma demo_dateChange_pass:
  "run_effects demo_env {DateChange} demo_state = Some (demo_state\<lparr>selectedSlot := ''''\<rparr>, [])"
  by (simp add: pass_facts demo_facts)

lemma demo_distinct: "distinct (map date (days demo_snapshot))"
  by (simp add: demo_facts)

lemma demo_pickA_service2_render:
  "render demo_env demo_pickA_service2 =
     Some \<lparr> daysByKey = demo_index, availableDaySet = {}, earliestAvailableDate = None,
            selectedDayData = Some day10 \<rparr>"
  by (simp add: demo_pickA_service2_def demo_index_def pass_facts demo_facts)

lemma demo_service1_render:
  "render demo_env demo_service1 =
     Some \<lparr> daysByKey = demo_index, availableDaySet = {}, earliestAvailableDate = None,
            selectedDayData = Some day10 \<rparr>"
  by (simp add: demo_service1_def demo_index_def pass_facts demo_facts)

lemma demo_state_render:
  "render demo_env demo_state =
     Some \<lparr> daysByKey = demo_index, availableDaySet = {''2025-03-10'', ''2025-03-12''},
            earliestAvailableDate = Some (LocalDay 2025 3 10), selectedDayData = Some day10 \<rparr>"
  by (simp add: demo_index_def pass_facts demo_facts insert_commute)

lemma demo_repick_pass:
  "run_effects demo_env {DateValidity, EmployeeChange, ServiceChange} demo_state =
     Some (demo_state\<lparr>selectedSlot := ''''\<rparr>, [])"
  by (simp add: pass_facts demo_facts)


lemma demo_deps:
  "deps_changed (demo_state\<lparr>selectedDate := Some (LocalDay 2025 3 12)\<rparr>) demo_state = {DateChange}"
  "deps_changed (demo_state\<lparr>employeeId := ''1''\<rparr>) demo_state =
     {DateValidity, EmployeeChange, ServiceChange}"
  "deps_changed (demo_state\<lparr>selectedSlot := ''''\<rparr>) demo_pickA_service2 =
     {DateValidity, EmployeeChange, ServiceChange}"
  "deps_changed demo_state demo_service1 = {DateValidity, ServiceChange}"
  "deps_changed (demo_pickA\<lparr>employeeId := ''''\<rparr>) demo_pickA =
     {DateValidity, EmployeeChange, ServiceChange}"
  by (auto simp: deps_changed_def demo_state_def demo_pickA_service2_def demo_service1_def
      demo_pickA_def)

subsection \<open>Unique employee ids, and the keys a fetch stores\<close>

text \<open>
  When the employee ids of a day are distinct, the employee's entry is the only list
  entry with the id.
\<close>

lemma find_unique:
  "distinct (map f xs) \<Longrightarrow> (find (\<lambda>x. f x = k) xs = Some y) = (y \<in> set xs \<and> f y = k)"
  by (induction xs) (auto simp: image_iff)

lemma employee_entry_unique:
  assumes "distinct (map (\<lambda>e. String_num (e_id e)) (employees d))"
  shows "(employee_entry d eid = Some emp) = (emp \<in> set (employees d) \<and> String_num (e_id emp) = eid)"
  unfolding employee_entry_def using assms by (rule find_unique)

lemma toKey_normal_form:
  assumes "isKeyShape s \<or> fourDigitDay (newDate env s) \<or>
     (newDate env s = InvalidDate \<and> fourDigitDay (newDate env (s @ ''T00:00:00'')))"
  shows "\<exists>k. toKey env (Str s) = Some k \<and> isKeyShape k"
proof (cases "isKeyShape s")
  case True
  then show ?thesis by simp
next
  case False
  show ?thesis
  proof (cases "newDate env s = InvalidDate")
    case True
    with assms False have "fourDigitDay (newDate env (s @ ''T00:00:00''))" by auto
    from format_ymd_shape [OF this] True False show ?thesis
      by (simp add: toKey.simps startOfDay_def)
  next
    case n: False
    with assms False have "fourDigitDay (newDate env s)" by auto
    from format_ymd_shape [OF this] n False show ?thesis
      by (simp add: toKey.simps startOfDay_def)
  qed
qed

lemma normalizeDays_keys:
  assumes "normalizeDays env ds = Some ds'"
    and "\<forall>d\<in>set ds. isKeyShape (date d) \<or> fourDigitDay (newDate env (date d)) \<or>
       (newDate env (date d) = InvalidDate \<and>
        fourDigitDay (newDate env (date d @ ''T00:00:00'')))"
  shows "\<forall>d'\<in>set ds'. isKeyShape (date d') \<and> toKey env (Str (date d')) = Some (date d')"
  using assms
proof (induction ds arbitrary: ds')
  case Nil
  then show ?case by simp
next
  case (Cons d ds)
  from Cons.prems(2) have "isKeyShape (date d) \<or> fourDigitDay (newDate env (date d)) \<or>
       (newDate env (date d) = InvalidDate \<and>
        fourDigitDay (newDate env (date d @ ''T00:00:00'')))" by simp
  from toKey_normal_form [OF this] obtain k where
    k: "toKey env (Str (date d)) = Some k" "isKeyShape k" by blast
  with Cons.prems(1) obtain ds1 where ds1: "normalizeDays env ds = Some ds1"
    "ds' = d\<lparr>date := k\<rparr> # ds1" by (auto split: option.splits)
  from Cons.IH [OF ds1(1)] Cons.prems(2)
  have "\<forall>d'\<in>set ds1. isKeyShape (date d') \<and> toKey env (Str (date d')) = Some (date d')"
    by simp
  with k(2) ds1(2) show ?case by simp
qed

lemma normalizeDays_total:
  "(\<forall>d\<in>set ds. toKey env (Str (date d)) \<noteq> None) \<Longrightarrow> \<exists>ds'. normalizeDays env ds = Some ds'"
  by (induction ds) auto

subsection \<open>Where normalisation raises or leaves the shape, and what a fetch stores\<close>

lemma length_decimal_step: "10 \<le> n \<Longrightarrow> length (decimal n) = Suc (length (decimal (n div 10)))"
  by (subst decimal.simps) simp

lemma length_decimal_ge5:
  assumes "10000 \<le> n"
  shows "5 \<le> length (decimal n)"
proof -
  have 1: "1 \<le> length (decimal (n div 10 div 10 div 10 div 10))"
    using decimal_nonempty [of "n div 10 div 10 div 10 div 10"]
    by (cases "decimal (n div 10 div 10 div 10 div 10)") simp_all
  from assms have "10 \<le> n" "10 \<le> n div 10" "10 \<le> n div 10 div 10"
    "10 \<le> n div 10 div 10 div 10" by simp_all
  then have "length (decimal n) = Suc (Suc (Suc (Suc
      (length (decimal (n div 10 div 10 div 10 div 10))))))"
    by (simp add: length_decimal_step)
  with 1 show ?thesis by simp
qed

lemma length_addLeadingZeros_ge:
  "k \<le> length (addLeadingZeros n k)" "length (decimal n) \<le> length (addLeadingZeros n k)"
  by (simp_all add: addLeadingZeros_def)

lemma format_ymd_long_year:
  assumes "9999 < y \<or> y < - 9998"
  shows "\<exists>k. format_ymd (LocalDay y m dd) = Some k \<and> \<not> isKeyShape k"
proof -
  let ?yy = "nat (if y > 0 then y else 1 - y)"
  from assms have "10000 \<le> ?yy" by auto
  from length_decimal_ge5 [OF this] length_addLeadingZeros_ge(2) [of ?yy 4]
  have "5 \<le> length (addLeadingZeros ?yy 4)" by simp
  moreover have "2 \<le> length (addLeadingZeros m 2)" "2 \<le> length (addLeadingZeros dd 2)"
    by (rule length_addLeadingZeros_ge)+
  ultimately have "length (addLeadingZeros ?yy 4 @ ''-'' @ addLeadingZeros m 2 @ ''-'' @
       addLeadingZeros dd 2) \<noteq> 10" by simp
  then have "\<not> isKeyShape (addLeadingZeros ?yy 4 @ ''-'' @ addLeadingZeros m 2 @ ''-'' @
       addLeadingZeros dd 2)" by (simp only: isKeyShape_def) blast
  then show ?thesis by simp
qed

lemma toKey_invalid_raises:
  "toKey env (Dt InvalidDate) = None"
  "\<not> isKeyShape s \<Longrightarrow> newDate env s = InvalidDate \<Longrightarrow>
   newDate env (s @ ''T00:00:00'') = InvalidDate \<Longrightarrow> toKey env (Str s) = None"
  by (simp_all add: toKey.simps startOfDay_def)

lemma toKey_long_year:
  assumes "9999 < y \<or> y < - 9998"
  shows "\<exists>k. toKey env (Dt (LocalDay y m dd)) = Some k \<and> \<not> isKeyShape k"
    and "\<not> isKeyShape s \<Longrightarrow> newDate env s = LocalDay y m dd \<Longrightarrow>
         \<exists>k. toKey env (Str s) = Some k \<and> \<not> isKeyShape k"
  using format_ymd_long_year [OF assms, of m dd]
  by (auto simp: toKey.simps startOfDay_def)

lemma normalizeDays_None_iff:
  "normalizeDays env ds = None \<longleftrightarrow> (\<exists>x\<in>set ds. toKey env (Str (date x)) = None)"
  by (induction ds) (auto split: option.splits)

lemma normalizeDays_dates:
  "normalizeDays env ds = Some ds' \<Longrightarrow>
   map (\<lambda>x. Some (date x)) ds' = map (\<lambda>x. toKey env (Str (date x))) ds"
proof (induction ds arbitrary: ds')
  case Nil
  then show ?case by simp
next
  case (Cons x ds)
  from Cons.prems obtain k ds1 where k: "toKey env (Str (date x)) = Some k"
    and n: "normalizeDays env ds = Some ds1" and d: "ds' = x\<lparr>date := k\<rparr> # ds1"
    by (auto split: option.splits)
  from Cons.IH [OF n] k d show ?case by simp
qed

lemma fetch_settle_keys:
  assumes "\<forall>x\<in>set (days resp). isKeyShape (date x) \<or> fourDigitDay (newDate env (date x)) \<or>
       (newDate env (date x) = InvalidDate \<and>
        fourDigitDay (newDate env (date x @ ''T00:00:00'')))"
  shows "\<exists>a. availability (fetch_settle env (Resolved resp) s) = Some a \<and>
     map (\<lambda>x. Some (date x)) (days a) = map (\<lambda>x. toKey env (Str (date x))) (days resp) \<and>
     (\<forall>x'\<in>set (days a). isKeyShape (date x') \<and> toKey env (Str (date x')) = Some (date x'))"
proof -
  have "\<forall>x\<in>set (days resp). toKey env (Str (date x)) \<noteq> None"
  proof
    fix x assume "x \<in> set (days resp)"
    with assms have "isKeyShape (date x) \<or> fourDigitDay (newDate env (date x)) \<or>
       (newDate env (date x) = InvalidDate \<and>
        fourDigitDay (newDate env (date x @ ''T00:00:00'')))" by blast
    from toKey_normal_form [OF this] show "toKey env (Str (date x)) \<noteq> None" by auto
  qed
  from normalizeDays_total [OF this] obtain ds' where
    n: "normalizeDays env (days resp) = Some ds'" by blast
  from normalizeDays_keys [OF n assms]
  have "\<forall>x'\<in>set ds'. isKeyShape (date x') \<and> toKey env (Str (date x')) = Some (date x')" .
  with n normalizeDays_dates [OF n] show ?thesis by (simp add: fetch_settle_def)
qed

lemma fetch_settle_raises:
  assumes "\<exists>x\<in>set (days resp). toKey env (Str (date x)) = None"
  shows "availability (fetch_settle env (Resolved resp) s) = availability s"
proof -
  from assms have "normalizeDays env (days resp) = None"
    by (simp only: normalizeDays_None_iff)
  then show ?thesis by (simp add: fetch_settle_def catch_fetch_def rangeError_def)
qed

section \<open>Claims\<close>

text \<open>
  C1. For every snapshot and every combination of the employee and service filters, a
  date key is in the computed available-day set iff some day entry of the snapshot is
  stored under that key and satisfies the predicate of section 4.2 on a direct re-scan
  (not before today; with an employee filter, the employee's entry on the day has a slot
  and, when a service is chosen too, offers it; with a service filter only, some employee
  with a slot offers it; with no filter, some employee has a slot). The set is computed
  exactly when every date of the snapshot can be normalised.
\<close>

theorem availableDaySet_rescan:
  "(case dayIndex_memo env (Some a) eid sid of
      None \<Rightarrow> \<exists>d\<in>set (days a). toKey env (Str (date d)) = None
    | Some (m, st) \<Rightarrow>
        (\<forall>d\<in>set (days a). toKey env (Str (date d)) \<noteq> None) \<and>
        (\<forall>key. key \<in> st \<longleftrightarrow>
           (\<exists>d\<in>set (days a). toKey env (Str (date d)) = Some key \<and>
              spec_day_available env eid sid key d)))"
proof (cases "dayIndex_memo env (Some a) eid sid")
  case None
  then have "scanDays env eid sid (days a) (Map.empty, {}) = None"
    by (simp add: dayIndex_memo_def)
  then have "\<exists>d\<in>set (days a). toKey env (Str (date d)) = None"
    by (simp only: scanDays_None_iff)
  with None show ?thesis by simp
next
  case (Some r)
  obtain m st where r: "r = (m, st)" by (cases r)
  from Some r have sc: "scanDays env eid sid (days a) (Map.empty, {}) = Some (m, st)"
    by (simp add: dayIndex_memo_def)
  then have "\<not> (\<exists>d\<in>set (days a). toKey env (Str (date d)) = None)"
    using scanDays_None_iff [of env eid sid "days a" "(Map.empty, {})"] by simp
  moreover from scanDays_set [OF sc] have "\<forall>key. key \<in> st \<longleftrightarrow>
      (\<exists>d\<in>set (days a). toKey env (Str (date d)) = Some key \<and>
         spec_day_available env eid sid key d)"
    by (simp add: dayHasAvailability_spec [symmetric])
  ultimately show ?thesis using Some r by simp
qed

theorem availableDaySet_rescan_witness:
  "(case dayIndex_memo demo_env (Some demo_snapshot) ''2'' '''' of
      None \<Rightarrow> False
    | Some (m, st) \<Rightarrow> ''2025-03-10'' \<in> st \<and> ''2025-03-12'' \<in> st \<and> ''2025-03-03'' \<notin> st) \<and>
   list_all (\<lambda>d. toKey demo_env (Str (date d)) \<noteq> None) (days demo_snapshot) \<and>
   spec_day_available demo_env ''2'' '''' ''2025-03-10'' day10 \<and>
   \<not> spec_day_available demo_env ''2'' '''' ''2025-03-03'' day03"
  using availableDaySet_rescan [where env = demo_env and a = demo_snapshot and eid = "''2''"
      and sid = "''''"]
  by (simp add: demo_facts)

text \<open>
  C2. On a stored snapshot (every date a key of shape yyyy-MM-dd), whenever the effect
  that keeps the selected date valid runs and the selected date is missing or its key
  is not in the available-day set of the current filters, the pass leaves the Date of
  the chronologically earliest key of that set selected; when the set is empty it
  leaves the date cleared and the time slot empty.
\<close>

theorem invalid_date_moves_to_earliest:
  assumes av: "availability r = Some a"
    and shaped: "\<forall>d\<in>set (days a). isKeyShape (date d)"
    and sel: "selectedDate r \<noteq> Some InvalidDate"
    and fired: "DateValidity \<in> fired"
  shows "\<exists>m st p reqs.
     dayIndex_memo env (Some a) (employeeId r) (serviceId r) = Some (m, st) \<and>
     run_effects env fired r = Some (p, reqs) \<and>
     ((case selectedDate r of None \<Rightarrow> True | Some sd \<Rightarrow> toKey env (Dt sd) \<notin> Some ` st) \<longrightarrow>
        (st = {} \<longrightarrow> selectedDate p = None \<and> selectedSlot p = '''') \<and>
        (st \<noteq> {} \<longrightarrow>
           (\<exists>k0\<in>st. (\<forall>k\<in>st. \<not> isBefore (keyDay k) (keyDay k0)) \<and>
              selectedDate p = Some (newDate env (k0 @ ''T00:00:00'')))))"
proof -
  from av shaped have "\<forall>a. availability r = Some a \<longrightarrow> (\<forall>d\<in>set (days a). isKeyShape (date d))"
    by simp
  from render_total [OF this sel] obtain dv where rd: "render env r = Some dv" by blast
  from render_facts(1) [OF rd] av
  have idx: "dayIndex_memo env (Some a) (employeeId r) (serviceId r) =
      Some (daysByKey dv, availableDaySet dv)" by simp
  show ?thesis
  proof (cases "case selectedDate r of None \<Rightarrow> True
         | Some sd \<Rightarrow> toKey env (Dt sd) \<notin> Some ` availableDaySet dv")
    case True
    from revalidation_result [OF rd av shaped fired True] idx show ?thesis by blast
  next
    case False
    from run_effects_total [OF rd] obtain p reqs where
      "run_effects env fired r = Some (p, reqs)" by blast
    with idx False show ?thesis by blast
  qed
qed

theorem invalid_date_moves_to_earliest_witness:
  "availability demo_fresh = Some demo_snapshot \<and>
   list_all (\<lambda>d. isKeyShape (date d)) (days demo_snapshot) \<and>
   selectedDate demo_fresh \<noteq> Some InvalidDate \<and>
   run_effects demo_env {DateValidity} demo_fresh =
     Some (demo_fresh\<lparr>selectedDate := Some (LocalDay 2025 3 10)\<rparr>, [])"
proof -
  have 1: "availability demo_fresh = Some demo_snapshot"
    and 3: "selectedDate demo_fresh \<noteq> Some InvalidDate"
    by (simp_all add: demo_fresh_def demo_state_def)
  have 4: "DateValidity \<in> {DateValidity}" by simp
  from invalid_date_moves_to_earliest [OF 1 demo_shaped 3 4, of demo_env]
  have "\<exists>m st p reqs.
     dayIndex_memo demo_env (Some demo_snapshot) (employeeId demo_fresh) (serviceId demo_fresh) =
       Some (m, st) \<and> run_effects demo_env {DateValidity} demo_fresh = Some (p, reqs)"
    by blast
  with 1 3 demo_shaped demo_fresh_pass show ?thesis by (simp add: list_all_iff)
qed

text \<open>
  C3. Whatever the snapshot and the filters, the Date of a key of the available-day set
  is never before today, and neither is the earliest available date that is selected
  automatically.
\<close>

theorem no_past_day_available:
  assumes "dayIndex_memo env av eid sid = Some (m, st)"
  shows "(\<forall>key\<in>st. \<not> isBefore (startOfDay (newDate env (key @ ''T00:00:00''))) (today env)) \<and>
         (\<forall>e. earliestAvailableDate_memo env av st = Some (Some e) \<longrightarrow>
              \<not> isBefore (startOfDay e) (today env))"
proof -
  have mem: "\<not> isBefore (startOfDay (newDate env (key @ ''T00:00:00''))) (today env)"
    if "key \<in> st" for key
  proof (cases av)
    case None
    with assms that show ?thesis by (simp add: dayIndex_memo_def)
  next
    case (Some a)
    with assms have "scanDays env eid sid (days a) (Map.empty, {}) = Some (m, st)"
      by (simp add: dayIndex_memo_def)
    from scanDays_not_past [OF this that] show ?thesis by simp
  qed
  have "\<not> isBefore (startOfDay e) (today env)"
    if e: "earliestAvailableDate_memo env av st = Some (Some e)" for e
  proof -
    from e obtain a ks where ks: "e = newDate env (hd (sort (filter (\<lambda>k. k \<in> st) ks)) @ ''T00:00:00'')"
      and ne: "sort (filter (\<lambda>k. k \<in> st) ks) \<noteq> []"
      by (auto simp: earliestAvailableDate_memo_def Let_def split: option.splits if_splits)
    from hd_sort_filter_mem [OF ne] have "hd (sort (filter (\<lambda>k. k \<in> st) ks)) \<in> st" .
    from mem [OF this] ks show ?thesis by simp
  qed
  with mem show ?thesis by blast
qed

theorem no_past_day_available_witness:
  "\<exists>m. dayIndex_memo demo_env (Some demo_snapshot) '''' '''' =
          Some (m, {''2025-03-10'', ''2025-03-12''}) \<and>
        earliestAvailableDate_memo demo_env (Some demo_snapshot) {''2025-03-10'', ''2025-03-12''} =
          Some (Some (LocalDay 2025 3 10)) \<and>
        \<not> isBefore (startOfDay (LocalDay 2025 3 10)) (today demo_env) \<and>
        isBefore (startOfDay (newDate demo_env ''2025-03-03T00:00:00'')) (today demo_env)"
proof -
  have 1: "dayIndex_memo demo_env (Some demo_snapshot) '''' '''' =
      Some ([''2025-03-03'' \<mapsto> day03, ''2025-03-10'' \<mapsto> day10, ''2025-03-12'' \<mapsto> day12],
            {''2025-03-10'', ''2025-03-12''})"
    by (simp add: demo_facts insert_commute)
  have 2: "earliestAvailableDate_memo demo_env (Some demo_snapshot) {''2025-03-10'', ''2025-03-12''} =
      Some (Some (LocalDay 2025 3 10))"
    by (simp add: demo_facts earliestAvailableDate_memo_def)
  from no_past_day_available [OF 1] 1 2 show ?thesis
    by (simp add: demo_facts)
qed

text \<open>
  C4. With a day selected: the passes after selecting an employee whose entry on that day
  does not list the chosen service leave the service cleared; the passes after selecting
  a service that the chosen employee's entry does not list (or with no entry for the
  employee) leave the employee and the time slot cleared. No later pass of the same
  update sets the cleared value again.
\<close>

theorem incompatible_selection_cleared:
  assumes rd: "render env r = Some dv" and sdd: "selectedDayData dv = Some sdd"
    and eid: "employeeId r \<noteq> ''''" and sid: "serviceId r \<noteq> ''''"
    and fired: "deps_changed prev r \<subseteq> fired"
  shows "(employeeId r \<noteq> employeeId prev \<and>
          (\<exists>emp. employee_entry sdd (employeeId r) = Some emp \<and>
             \<not> list_ex (\<lambda>s. String_num (s_id s) = serviceId r) (services emp)) \<longrightarrow>
            (\<exists>p reqs. run_effects env fired r = Some (p, reqs) \<and> serviceId p = '''' \<and>
               (\<forall>fs s'. run_passes env fs p = Some s' \<longrightarrow> serviceId s' = ''''))) \<and>
         (serviceId r \<noteq> serviceId prev \<and>
          (case employee_entry sdd (employeeId r) of
             None \<Rightarrow> True
           | Some emp \<Rightarrow> \<not> list_ex (\<lambda>s. String_num (s_id s) = serviceId r) (services emp)) \<longrightarrow>
            (\<exists>p reqs. run_effects env fired r = Some (p, reqs) \<and>
               employeeId p = '''' \<and> selectedSlot p = '''' \<and>
               (\<forall>fs s'. run_passes env fs p = Some s' \<longrightarrow>
                  employeeId s' = '''' \<and> selectedSlot s' = '''')))"
proof -
  from run_effects_total [OF rd] obtain p reqs where
    run: "run_effects env fired r = Some (p, reqs)" by blast
  from run obtain dv' p0 p1 p2 p3 where rd': "render env r = Some dv'"
    and p3: "if EmployeeChange \<in> fired then effect_employeeChange env r dv' p2 = Some p3
         else p3 = p2"
    and p: "p = (if ServiceChange \<in> fired then effect_serviceChange r dv' p3 else p3)"
    by (rule run_effects_steps)
  from rd rd' have dv: "dv' = dv" by simp
  have one: "serviceId p = ''''"
    if c: "employeeId r \<noteq> employeeId prev" and e: "employee_entry sdd (employeeId r) = Some emp"
      and n: "\<not> list_ex (\<lambda>s. String_num (s_id s) = serviceId r) (services emp)" for emp
  proof -
    from deps_changed_employee(2) [OF fired c] p3
    have "effect_employeeChange env r dv p2 = Some p3" by (simp add: dv)
    from employeeChange_clears(2) [OF this eid sdd e [unfolded employee_entry_def] sid n]
    have "serviceId p3 = ''''" .
    then show ?thesis unfolding p by (simp add: serviceChange_frame)
  qed
  have two: "employeeId p = '''' \<and> selectedSlot p = ''''"
    if c: "serviceId r \<noteq> serviceId prev" and n: "case employee_entry sdd (employeeId r) of
             None \<Rightarrow> True
           | Some emp \<Rightarrow> \<not> list_ex (\<lambda>s. String_num (s_id s) = serviceId r) (services emp)"
  proof -
    from deps_changed_service(2) [OF fired c] p
    have "p = effect_serviceChange r dv p3" by (simp add: dv)
    with serviceChange_clears [OF sid eid sdd n [unfolded employee_entry_def], of p3]
    show ?thesis by simp
  qed
  have keep: "\<forall>fs s'. run_passes env fs p = Some s' \<longrightarrow> serviceId s' = ''''"
    if "serviceId p = ''''"
    using run_passes_keep_cleared(1) that by blast
  have keep2: "\<forall>fs s'. run_passes env fs p = Some s' \<longrightarrow>
      employeeId s' = '''' \<and> selectedSlot s' = ''''"
    if "employeeId p = '''' \<and> selectedSlot p = ''''"
    using run_passes_keep_cleared(2,3) that by blast
  from run one two keep keep2 show ?thesis by blast
qed

theorem incompatible_selection_cleared_witness:
  "employeeId demo_pickA_service2 \<noteq> employeeId (demo_state\<lparr>selectedSlot := ''''\<rparr>) \<and>
   employee_entry day10 (employeeId demo_pickA_service2) = Some empA \<and>
   \<not> list_ex (\<lambda>s. String_num (s_id s) = serviceId demo_pickA_service2) (services empA) \<and>
   run_effects demo_env (deps_changed (demo_state\<lparr>selectedSlot := ''''\<rparr>) demo_pickA_service2)
       demo_pickA_service2 =
     Some (demo_pickA_service2\<lparr>selectedDate := None, serviceId := '''', employeeId := ''''\<rparr>, []) \<and>
   serviceId demo_service1 \<noteq> serviceId demo_state \<and>
   employee_entry day10 (employeeId demo_service1) = Some empB \<and>
   \<not> list_ex (\<lambda>s. String_num (s_id s) = serviceId demo_service1) (services empB) \<and>
   run_effects demo_env (deps_changed demo_state demo_service1) demo_service1 =
     Some (demo_service1\<lparr>selectedDate := None, employeeId := '''', selectedSlot := ''''\<rparr>, [])"
proof -
  let ?prev1 = "demo_state\<lparr>selectedSlot := ''''\<rparr>"
  have a: "selectedDayData \<lparr> daysByKey = demo_index, availableDaySet = {},
      earliestAvailableDate = None, selectedDayData = Some day10 \<rparr> = Some day10" by simp
  have e1: "employeeId demo_pickA_service2 \<noteq> ''''" "serviceId demo_pickA_service2 \<noteq> ''''"
    and e2: "employeeId demo_service1 \<noteq> ''''" "serviceId demo_service1 \<noteq> ''''"
    by (simp_all add: demo_pickA_service2_def demo_service1_def demo_state_def)
  have c1: "employeeId demo_pickA_service2 \<noteq> employeeId ?prev1"
    and c2: "serviceId demo_service1 \<noteq> serviceId demo_state"
    by (simp_all add: demo_pickA_service2_def demo_service1_def demo_state_def)
  have f1: "employee_entry day10 (employeeId demo_pickA_service2) = Some empA"
    "\<not> list_ex (\<lambda>s. String_num (s_id s) = serviceId demo_pickA_service2) (services empA)"
    and f2: "employee_entry day10 (employeeId demo_service1) = Some empB"
    "\<not> list_ex (\<lambda>s. String_num (s_id s) = serviceId demo_service1) (services empB)"
    by (simp_all add: demo_pickA_service2_def demo_service1_def demo_state_def demo_facts)
  have s1: "deps_changed ?prev1 demo_pickA_service2 \<subseteq> deps_changed ?prev1 demo_pickA_service2"
    and s2: "deps_changed demo_state demo_service1 \<subseteq> deps_changed demo_state demo_service1"
    by simp_all
  have r1: "run_effects demo_env (deps_changed ?prev1 demo_pickA_service2) demo_pickA_service2 =
     Some (demo_pickA_service2\<lparr>selectedDate := None, serviceId := '''', employeeId := ''''\<rparr>, [])"
    unfolding demo_deps by (rule demo_pickA_service2_pass)
  have r2: "run_effects demo_env (deps_changed demo_state demo_service1) demo_service1 =
     Some (demo_service1\<lparr>selectedDate := None, employeeId := '''', selectedSlot := ''''\<rparr>, [])"
    unfolding demo_deps by (rule demo_service1_pass)
  from incompatible_selection_cleared [OF demo_pickA_service2_render a e1 s1] c1 f1
  have x1: "\<exists>p reqs. run_effects demo_env (deps_changed ?prev1 demo_pickA_service2)
      demo_pickA_service2 = Some (p, reqs) \<and> serviceId p = ''''" by blast
  from incompatible_selection_cleared [OF demo_service1_render a e2 s2] c2 f2
  have x2: "\<exists>p reqs. run_effects demo_env (deps_changed demo_state demo_service1)
      demo_service1 = Some (p, reqs) \<and> employeeId p = '''' \<and> selectedSlot p = ''''"
    by simp blast
  from x1 x2 c1 c2 f1 f2 r1 r2 show ?thesis by blast
qed

text \<open>
  C5. From every state that renders: the pass after a change of the selected date, and
  the pass after the selection of another employee from the offered list, leave the
  time slot empty; a pass that itself changes the employee (the deselection by the
  service rule) leaves the slot empty too; and no later pass fills the slot again.
\<close>

theorem slot_cleared_on_change:
  assumes rd: "render env r = Some dv" and fired: "deps_changed prev r \<subseteq> fired"
  shows "(selectedDate r \<noteq> selectedDate prev \<or>
          (employeeId r \<noteq> employeeId prev \<and>
           employeeId r \<in> set (map (\<lambda>e. String_num (e_id e))
              (employeesForUI_memo (selectedDayData dv) (serviceId r)))) \<longrightarrow>
            (\<exists>p reqs. run_effects env fired r = Some (p, reqs) \<and> selectedSlot p = '''' \<and>
               (\<forall>fs s'. run_passes env fs p = Some s' \<longrightarrow> selectedSlot s' = ''''))) \<and>
         (\<forall>p reqs. run_effects env fired r = Some (p, reqs) \<and> employeeId p \<noteq> employeeId r \<longrightarrow>
            selectedSlot p = '''' \<and>
            (\<forall>fs s'. run_passes env fs p = Some s' \<longrightarrow> selectedSlot s' = ''''))"
proof -
  from run_effects_total [OF rd] obtain p reqs where
    run: "run_effects env fired r = Some (p, reqs)" by blast
  from run obtain dv' p0 p1 p2 p3 where rd': "render env r = Some dv'"
    and p2: "p2 = (if DateChange \<in> fired then effect_dateChange p1 else p1)"
    and p3: "if EmployeeChange \<in> fired then effect_employeeChange env r dv' p2 = Some p3
         else p3 = p2"
    and p: "p = (if ServiceChange \<in> fired then effect_serviceChange r dv' p3 else p3)"
    by (rule run_effects_steps)
  from rd rd' have dv: "dv' = dv" by simp
  have a4: "selectedSlot p3 = '''' \<Longrightarrow> selectedSlot p = ''''"
    unfolding p using serviceChange_frame(3) [of r dv' p3] by (cases "ServiceChange \<in> fired") auto
  have a3: "selectedSlot p2 = '''' \<Longrightarrow> selectedSlot p3 = ''''"
    using p3 employeeChange_frame(3) [of env r dv' p2 p3]
    by (cases "EmployeeChange \<in> fired") auto
  have one: "selectedSlot p = ''''" if "selectedDate r \<noteq> selectedDate prev"
  proof -
    from deps_changed_date [OF fired that] have "selectedSlot p2 = ''''"
      unfolding p2 by (simp add: dateChange_frame)
    with a3 a4 show ?thesis by simp
  qed
  have two: "selectedSlot p = ''''"
    if c: "employeeId r \<noteq> employeeId prev"
      and m: "employeeId r \<in> set (map (\<lambda>e. String_num (e_id e))
              (employeesForUI_memo (selectedDayData dv) (serviceId r)))"
  proof -
    from picked_employee_found [OF m] obtain sdd emp where ne: "employeeId r \<noteq> ''''"
      and s: "selectedDayData dv = Some sdd"
      and e: "find (\<lambda>e. String_num (e_id e) = employeeId r) (employees sdd) = Some emp"
      by blast
    from deps_changed_employee(2) [OF fired c] p3
    have "effect_employeeChange env r dv p2 = Some p3" by (simp add: dv)
    from employeeChange_clears(1) [OF this ne s e] a4 show ?thesis by simp
  qed
  have keep: "\<forall>fs s'. run_passes env fs q = Some s' \<longrightarrow> selectedSlot s' = ''''"
    if "selectedSlot q = ''''" for q
    using run_passes_keep_cleared(3) that by blast
  have three: "selectedSlot q = ''''"
    if "run_effects env fired r = Some (q, qs)" "employeeId q \<noteq> employeeId r" for q qs
    using run_effects_frame(4) [OF that] .
  from run one two keep three show ?thesis by blast
qed

theorem slot_cleared_on_change_witness:
  "selectedDate demo_state \<noteq> selectedDate (demo_state\<lparr>selectedDate := Some (LocalDay 2025 3 12)\<rparr>) \<and>
   run_effects demo_env
       (deps_changed (demo_state\<lparr>selectedDate := Some (LocalDay 2025 3 12)\<rparr>) demo_state)
       demo_state = Some (demo_state\<lparr>selectedSlot := ''''\<rparr>, []) \<and>
   employeeId demo_state \<noteq> employeeId (demo_state\<lparr>employeeId := ''1''\<rparr>) \<and>
   employeeId demo_state \<in> set (map (\<lambda>e. String_num (e_id e))
      (employeesForUI_memo (Some day10) (serviceId demo_state))) \<and>
   run_effects demo_env (deps_changed (demo_state\<lparr>employeeId := ''1''\<rparr>) demo_state) demo_state =
     Some (demo_state\<lparr>selectedSlot := ''''\<rparr>, []) \<and>
   employeeId (demo_service1\<lparr>selectedDate := None, employeeId := '''', selectedSlot := ''''\<rparr>)
     \<noteq> employeeId demo_service1"
proof -
  let ?prev1 = "demo_state\<lparr>selectedDate := Some (LocalDay 2025 3 12)\<rparr>"
  let ?prev2 = "demo_state\<lparr>employeeId := ''1''\<rparr>"
  have m: "employeeId demo_state \<in> set (map (\<lambda>e. String_num (e_id e))
      (employeesForUI_memo (Some day10) (serviceId demo_state)))"
    by (simp add: employeesForUI_memo_def demo_state_def demo_facts)
  have m': "employeeId demo_state \<in> set (map (\<lambda>e. String_num (e_id e))
      (employeesForUI_memo (selectedDayData \<lparr> daysByKey = demo_index,
          availableDaySet = {''2025-03-10'', ''2025-03-12''},
          earliestAvailableDate = Some (LocalDay 2025 3 10),
          selectedDayData = Some day10 \<rparr>) (serviceId demo_state)))"
    using m by simp
  have c1: "selectedDate demo_state \<noteq> selectedDate ?prev1"
    and c2: "employeeId demo_state \<noteq> employeeId ?prev2"
    and c3: "employeeId (demo_service1\<lparr>selectedDate := None, employeeId := '''',
        selectedSlot := ''''\<rparr>) \<noteq> employeeId demo_service1"
    by (simp_all add: demo_state_def demo_service1_def)
  have s1: "deps_changed ?prev1 demo_state \<subseteq> deps_changed ?prev1 demo_state"
    and s2: "deps_changed ?prev2 demo_state \<subseteq> deps_changed ?prev2 demo_state"
    and s3: "deps_changed demo_state demo_service1 \<subseteq> deps_changed demo_state demo_service1"
    by simp_all
  have r1: "run_effects demo_env (deps_changed ?prev1 demo_state) demo_state =
      Some (demo_state\<lparr>selectedSlot := ''''\<rparr>, [])"
    unfolding demo_deps by (rule demo_dateChange_pass)
  have r2: "run_effects demo_env (deps_changed ?prev2 demo_state) demo_state =
      Some (demo_state\<lparr>selectedSlot := ''''\<rparr>, [])"
    unfolding demo_deps by (rule demo_repick_pass)
  have r3: "run_effects demo_env (deps_changed demo_state demo_service1) demo_service1 =
     Some (demo_service1\<lparr>selectedDate := None, employeeId := '''', selectedSlot := ''''\<rparr>, [])"
    unfolding demo_deps by (rule demo_service1_pass)
  from slot_cleared_on_change [OF demo_state_render s1] c1
  have x1: "\<exists>p reqs. run_effects demo_env (deps_changed ?prev1 demo_state) demo_state =
      Some (p, reqs) \<and> selectedSlot p = ''''" by blast
  from slot_cleared_on_change [OF demo_state_render s2] c2 m'
  have x2: "\<exists>p reqs. run_effects demo_env (deps_changed ?prev2 demo_state) demo_state =
      Some (p, reqs) \<and> selectedSlot p = ''''" by blast
  from slot_cleared_on_change [OF demo_service1_render s3] r3 c3
  have x3: "selectedSlot (demo_service1\<lparr>selectedDate := None, employeeId := '''',
      selectedSlot := ''''\<rparr>) = ''''" by blast
  from x1 x2 x3 c1 c2 c3 m r1 r2 show ?thesis by blast
qed

text \<open>
  C6. After an employee is selected, on a stored snapshot with one entry per date: when
  the entry of the selected date has no slot for that employee under the service filter
  (or the date has no entry), the pass moves the selected date to the chronologically
  earliest key of the days available for that employee, and when there is none it
  clears the date and the time slot.
\<close>

theorem employee_pick_moves_date:
  assumes av: "availability r = Some a"
    and shaped: "\<forall>d\<in>set (days a). isKeyShape (date d)"
    and dist: "distinct (map date (days a))"
    and sel: "selectedDate r \<noteq> Some InvalidDate"
    and emp: "employeeId r \<noteq> ''''" "employeeId r \<noteq> employeeId prev"
    and fired: "deps_changed prev r \<subseteq> fired"
  shows "\<exists>dv p reqs. render env r = Some dv \<and>
     dayIndex_memo env (Some a) (employeeId r) (serviceId r) =
       Some (daysByKey dv, availableDaySet dv) \<and>
     run_effects env fired r = Some (p, reqs) \<and>
     ((case selectedDayData dv of None \<Rightarrow> True
       | Some sdd \<Rightarrow> \<not> dayHasAvailability (employeeId r) (serviceId r) sdd) \<longrightarrow>
        (availableDaySet dv = {} \<longrightarrow> selectedDate p = None \<and> selectedSlot p = '''') \<and>
        (availableDaySet dv \<noteq> {} \<longrightarrow>
           (\<exists>k0\<in>availableDaySet dv.
              (\<forall>k\<in>availableDaySet dv. \<not> isBefore (keyDay k) (keyDay k0)) \<and>
              selectedDate p = Some (newDate env (k0 @ ''T00:00:00'')))))"
proof -
  from av shaped have "\<forall>a. availability r = Some a \<longrightarrow> (\<forall>d\<in>set (days a). isKeyShape (date d))"
    by simp
  from render_total [OF this sel] obtain dv where rd: "render env r = Some dv" by blast
  from render_facts(1) [OF rd] av
  have idx: "dayIndex_memo env (Some a) (employeeId r) (serviceId r) =
      Some (daysByKey dv, availableDaySet dv)" by simp
  note dvf = deps_changed_employee(1) [OF fired emp(2)]
  show ?thesis
  proof (cases "case selectedDayData dv of None \<Rightarrow> True
       | Some sdd \<Rightarrow> \<not> dayHasAvailability (employeeId r) (serviceId r) sdd")
    case True
    from zero_slots_not_available [OF rd av shaped dist True]
    have "case selectedDate r of None \<Rightarrow> True
         | Some sd \<Rightarrow> toKey env (Dt sd) \<notin> Some ` availableDaySet dv" .
    from revalidation_result [OF rd av shaped dvf this] rd idx show ?thesis by blast
  next
    case False
    from run_effects_total [OF rd] obtain p reqs where
      "run_effects env fired r = Some (p, reqs)" by blast
    with rd idx False show ?thesis by blast
  qed
qed

theorem employee_pick_moves_date_witness:
  "availability demo_pickA = Some demo_snapshot \<and>
   list_all (\<lambda>d. isKeyShape (date d)) (days demo_snapshot) \<and>
   distinct (map date (days demo_snapshot)) \<and>
   selectedDate demo_pickA \<noteq> Some InvalidDate \<and> employeeId demo_pickA \<noteq> '''' \<and>
   employeeId demo_pickA \<noteq> employeeId (demo_pickA\<lparr>employeeId := ''''\<rparr>) \<and>
   \<not> dayHasAvailability (employeeId demo_pickA) (serviceId demo_pickA) day12 \<and>
   run_effects demo_env (deps_changed (demo_pickA\<lparr>employeeId := ''''\<rparr>) demo_pickA) demo_pickA =
     Some (demo_pickA\<lparr>selectedDate := Some (LocalDay 2025 3 10)\<rparr>, [])"
proof -
  let ?prev = "demo_pickA\<lparr>employeeId := ''''\<rparr>"
  have 1: "availability demo_pickA = Some demo_snapshot"
    and 3: "selectedDate demo_pickA \<noteq> Some InvalidDate"
    and 4: "employeeId demo_pickA \<noteq> ''''"
    and 5: "employeeId demo_pickA \<noteq> employeeId ?prev"
    and 7: "\<not> dayHasAvailability (employeeId demo_pickA) (serviceId demo_pickA) day12"
    by (simp_all add: demo_pickA_def demo_state_def demo_facts)
  have s: "deps_changed ?prev demo_pickA \<subseteq> deps_changed ?prev demo_pickA" by simp
  have r: "run_effects demo_env (deps_changed ?prev demo_pickA) demo_pickA =
     Some (demo_pickA\<lparr>selectedDate := Some (LocalDay 2025 3 10)\<rparr>, [])"
    unfolding demo_deps by (rule demo_pickA_pass)
  have l: "list_all (\<lambda>d. isKeyShape (date d)) (days demo_snapshot)"
    using demo_shaped by (simp add: list_all_iff)
  from employee_pick_moves_date [OF 1 demo_shaped demo_distinct 3 4 5 s, of demo_env]
  have x: "\<exists>dv p reqs. render demo_env demo_pickA = Some dv \<and>
     run_effects demo_env (deps_changed ?prev demo_pickA) demo_pickA = Some (p, reqs)" by blast
  from x 1 l demo_distinct 3 4 5 7 r show ?thesis by blast
qed

text \<open>
  C7. For a selected day: when an employee is chosen, the services offered are exactly
  the service list of that employee's entry on the day (none when the employee has no
  entry); when no employee is chosen, they are the services of the employees of the day
  who have at least one slot, each service id once.
\<close>

theorem servicesForUI_selection:
  "(eid \<noteq> '''' \<longrightarrow>
      servicesForUI_memo (Some sdd) eid =
        (case employee_entry sdd eid of Some emp \<Rightarrow> services emp | None \<Rightarrow> [])) \<and>
   (eid = '''' \<longrightarrow>
      distinct (map s_id (servicesForUI_memo (Some sdd) eid)) \<and>
      set (servicesForUI_memo (Some sdd) eid) \<subseteq> spec_service_union sdd \<and>
      s_id ` set (servicesForUI_memo (Some sdd) eid) = s_id ` spec_service_union sdd)"
proof (intro conjI impI)
  assume "eid \<noteq> ''''"
  then show "servicesForUI_memo (Some sdd) eid =
      (case employee_entry sdd eid of Some emp \<Rightarrow> services emp | None \<Rightarrow> [])"
    by (simp add: servicesForUI_memo_def employee_entry_def)
next
  let ?m = "fold (\<lambda>e m. if length (slots e) = 0 then m
                         else fold (\<lambda>s m. map_set (s_id s) s m) (services e) m) (employees sdd) []"
  have "svc_inv [] {}" by (simp add: svc_inv_def)
  from svc_inv_employees [OF this, of "employees sdd"]
  have inv: "svc_inv ?m (spec_service_union sdd)" by (simp add: spec_service_union_def)
  then have "\<forall>p\<in>set ?m. s_id (snd p) = fst p"
    unfolding svc_inv_def by (auto simp: case_prod_beta)
  then have ids: "map s_id (map snd ?m) = map fst ?m"
    by simp
  assume e: "eid = ''''"
  then have r: "servicesForUI_memo (Some sdd) eid = map snd ?m"
    by (simp add: servicesForUI_memo_def)
  from inv have "distinct (map fst ?m)" by (simp add: svc_inv_def)
  then show "distinct (map s_id (servicesForUI_memo (Some sdd) eid))"
    unfolding r ids .
  from inv show "set (servicesForUI_memo (Some sdd) eid) \<subseteq> spec_service_union sdd"
    unfolding r by (auto simp: svc_inv_def)
  have "s_id ` set (map snd ?m) = set (map s_id (map snd ?m))" by (simp only: set_map)
  also have "\<dots> = fst ` set ?m" unfolding ids by (simp only: set_map)
  also from inv have "\<dots> = s_id ` spec_service_union sdd" by (simp add: svc_inv_def)
  finally show "s_id ` set (servicesForUI_memo (Some sdd) eid) = s_id ` spec_service_union sdd"
    unfolding r .
qed

theorem servicesForUI_selection_witness:
  "servicesForUI_memo (Some day10) ''2'' = [svc2] \<and>
   employee_entry day10 ''2'' = Some empB \<and>
   servicesForUI_memo (Some day10) '''' = [svc1, svc2] \<and>
   spec_service_union day10 = {svc1, svc2}"
  using servicesForUI_selection [where eid = "''2''" and sdd = day10]
    servicesForUI_selection [where eid = "''''" and sdd = day10]
  by (auto simp: demo_facts servicesForUI_memo_def spec_service_union_def)

text \<open>
  C8. Submission is enabled iff name and phone are non-empty, a service, an employee, a
  date and a time slot are chosen and no submission is in flight. Then a submission
  whose POST succeeds clears note and time slot, keeps name, phone, service and
  employee, and sends exactly one request for the availability of the displayed month.
\<close>

theorem submit_success:
  "(canReserve s \<longleftrightarrow>
      name s \<noteq> '''' \<and> phone s \<noteq> '''' \<and> serviceId s \<noteq> '''' \<and> employeeId s \<noteq> '''' \<and>
      selectedDate s \<noteq> None \<and> selectedSlot s \<noteq> '''' \<and> \<not> submitting s) \<and>
   (canReserve s \<and> selectedDate s \<noteq> Some InvalidDate \<and> month s = LocalDay y mo dd \<and>
    handleSubmit env (Resolved ()) fetch_outcome s = (s', reqs) \<longrightarrow>
      noteField s' = '''' \<and> selectedSlot s' = '''' \<and>
      name s' = name s \<and> phone s' = phone s \<and>
      serviceId s' = serviceId s \<and> employeeId s' = employeeId s \<and>
      filter isGet reqs = [GetAvailability (the (format_ym (month s)))])"
proof (intro conjI impI)
  show "canReserve s \<longleftrightarrow>
      name s \<noteq> '''' \<and> phone s \<noteq> '''' \<and> serviceId s \<noteq> '''' \<and> employeeId s \<noteq> '''' \<and>
      selectedDate s \<noteq> None \<and> selectedSlot s \<noteq> '''' \<and> \<not> submitting s"
    by (auto simp: canReserve_def)
next
  assume h: "canReserve s \<and> selectedDate s \<noteq> Some InvalidDate \<and> month s = LocalDay y mo dd \<and>
    handleSubmit env (Resolved ()) fetch_outcome s = (s', reqs)"
  then obtain sd where sd: "selectedDate s = Some sd" "sd \<noteq> InvalidDate"
    by (auto simp: canReserve_def)
  let ?s1 = "s\<lparr>error := '''', submitting := True\<rparr>"
  let ?pl = "\<lparr> p_serviceId = serviceId s, p_name = name s,
                       p_whatsappNumber = phone s, p_day = sd, p_time = selectedSlot s,
                       p_note = (if noteField s = '''' then None else Some (noteField s)),
                       p_employeeId = employeeId s \<rparr>"
  let ?f = "fetch_settle env fetch_outcome (?s1\<lparr>loadingAvailability := True, error := ''''\<rparr>)"
  from h have m: "month s = LocalDay y mo dd" by simp
  have f: "fetchMonthAvailability env (month s) fetch_outcome ?s1 =
      (?f, [GetAvailability (the (format_ym (month s)))])"
    by (simp add: fetchMonthAvailability_def m fetch_begin_valid)
  from h have c: "canReserve s"
    and hs: "handleSubmit env (Resolved ()) fetch_outcome s = (s', reqs)" by simp_all
  have "handleSubmit env (Resolved ()) fetch_outcome s =
      (?f\<lparr>selectedSlot := [], noteField := [], submitting := False\<rparr>,
       [PostAppointment ?pl, GetAvailability (the (format_ym (month s)))])"
    using c sd by (simp add: handleSubmit_def buildDateTimeISO_def f Let_def)
  with hs have r: "s' = ?f\<lparr>selectedSlot := '''', noteField := '''', submitting := False\<rparr>"
    and q: "reqs = [PostAppointment ?pl, GetAvailability (the (format_ym (month s)))]"
    by simp_all
  have keep: "name ?f = name s \<and> phone ?f = phone s \<and> serviceId ?f = serviceId s \<and>
      employeeId ?f = employeeId s"
    by (cases fetch_outcome)
      (simp_all add: fetch_settle_def catch_fetch_def split: option.splits)
  from r show "noteField s' = ''''" "selectedSlot s' = ''''" by simp_all
  from r keep show "name s' = name s" "phone s' = phone s" "serviceId s' = serviceId s"
    "employeeId s' = employeeId s" by simp_all
  from q show "filter isGet reqs = [GetAvailability (the (format_ym (month s)))]"
    by (simp add: isGet_def)
qed

theorem submit_success_witness:
  "canReserve demo_state \<and> selectedDate demo_state \<noteq> Some InvalidDate \<and>
   month demo_state = LocalDay 2025 3 1 \<and>
   handleSubmit demo_env (Resolved ()) (Resolved demo_snapshot) demo_state =
     (demo_state\<lparr>noteField := '''', selectedSlot := ''''\<rparr>,
      [PostAppointment \<lparr> p_serviceId = ''2'', p_name = ''Ana'', p_whatsappNumber = ''+506 8888'',
          p_day = LocalDay 2025 3 10, p_time = ''14:00'', p_note = Some ''window seat'',
          p_employeeId = ''2'' \<rparr>,
       GetAvailability ''2025-03''])"
  using submit_success [where s = demo_state and y = 2025 and mo = 3 and dd = 1
      and env = demo_env and fetch_outcome = "Resolved demo_snapshot"]
  by (simp add: canReserve_def demo_state_def handleSubmit_def buildDateTimeISO_def
      fetchMonthAvailability_def fetch_begin_def fetch_settle_def demo_snapshot_def
      day03_def day10_def day12_def isKeyShape_def isDigit_def
      addLeadingZeros_def decimal.simps digitChar_def)

text \<open>
  C9. When the request of an availability fetch is rejected: if the rejection is the
  AbortError of a cancelled request, no error is recorded (the error stays empty, and a
  late AbortError leaves whatever state it meets untouched); otherwise the thrown
  message, or the default text when there is none, is recorded, which is visible unless
  the thrown message is the empty string. In both cases, and when the answer cannot be
  normalised, the snapshot held before is unchanged.
\<close>

theorem fetch_failure_handling:
  assumes "mth = LocalDay y mo dd"
  shows "(fetchMonthAvailability env mth (Rejected e) s = (s', reqs) \<longrightarrow>
           availability s' = availability s \<and>
           (err_name e = Some ''AbortError'' \<longrightarrow> error s' = '''') \<and>
           (err_name e \<noteq> Some ''AbortError'' \<longrightarrow>
              error s' = (case err_message e of Some msg \<Rightarrow> msg
                          | None \<Rightarrow> ''Failed to load availability'') \<and>
              (err_message e \<noteq> Some '''' \<longrightarrow> error s' \<noteq> ''''))) \<and>
         (fetchMonthAvailability env mth (Resolved data) s = (s', reqs) \<and>
            normalizeDays env (days data) = None \<longrightarrow>
           availability s' = availability s \<and> error s' = ''Invalid time value'') \<and>
         (err_name e = Some ''AbortError'' \<longrightarrow>
           error (fetch_settle env (Rejected e) s) = error s \<and>
           availability (fetch_settle env (Rejected e) s) = availability s)"
  using assms
  by (auto simp: fetchMonthAvailability_def fetch_begin_valid fetch_settle_def catch_fetch_def
      rangeError_def split: option.splits)

theorem fetch_failure_handling_witness:
  "fetchMonthAvailability demo_env (LocalDay 2025 3 1) (Rejected http500) demo_state =
     (demo_state\<lparr>error := ''HTTP 500 Internal Server Error''\<rparr>, [GetAvailability ''2025-03'']) \<and>
   err_name http500 \<noteq> Some ''AbortError'' \<and> err_message http500 \<noteq> Some ''''"
  using fetch_failure_handling [where mth = "LocalDay 2025 3 1" and y = 2025 and mo = 3 and dd = 1
      and env = demo_env and e = http500 and s = demo_state]
  by (simp add: fetchMonthAvailability_def fetch_begin_def fetch_settle_def catch_fetch_def
      http500_def demo_state_def addLeadingZeros_def decimal.simps digitChar_def)

text \<open>
  C10 (as amended). \<^verbatim>\<open>toKey\<close> returns a string that already has the shape yyyy-MM-dd
  unchanged. For a valid Date whose formatted year has four digits, and for a string
  that the Date constructor parses to such a Date (directly, or after the suffix
  \<^verbatim>\<open>T00:00:00\<close> of the final fallback), it returns a key of that shape, and that key is a
  fixed point: normalising it again returns it unchanged. It raises, instead of
  returning, on an invalid Date and on every string that is not in shape and that the
  Date constructor parses neither as it is nor with the suffix. On a valid Date whose
  formatted year has more than four digits, and on a string not in shape that parses to
  such a Date, it returns a string that is not of the shape. So a fetch whose answer
  holds only dates of the first kind stores, for each day, the key \<^verbatim>\<open>toKey\<close> returns
  for its date, every stored key has the shape and is a fixed point; and a fetch whose
  answer holds a date on which \<^verbatim>\<open>toKey\<close> raises stores nothing.
\<close>

theorem toKey_shape_and_fixed_point:
  "(isKeyShape s \<longrightarrow> toKey env (Str s) = Some s) \<and>
   (fourDigitDay d \<longrightarrow>
      (\<exists>k. toKey env (Dt d) = Some k \<and> isKeyShape k \<and> toKey env (Str k) = Some k)) \<and>
   (fourDigitDay (newDate env s) \<longrightarrow>
      (\<exists>k. toKey env (Str s) = Some k \<and> isKeyShape k \<and> toKey env (Str k) = Some k)) \<and>
   (newDate env s = InvalidDate \<and> fourDigitDay (newDate env (s @ ''T00:00:00'')) \<longrightarrow>
      (\<exists>k. toKey env (Str s) = Some k \<and> isKeyShape k \<and> toKey env (Str k) = Some k)) \<and>
   toKey env (Dt InvalidDate) = None \<and>
   (\<not> isKeyShape s \<and> newDate env s = InvalidDate \<and>
    newDate env (s @ ''T00:00:00'') = InvalidDate \<longrightarrow> toKey env (Str s) = None) \<and>
   (9999 < y \<or> y < - 9998 \<longrightarrow>
      (\<exists>k. toKey env (Dt (LocalDay y m dd)) = Some k \<and> \<not> isKeyShape k)) \<and>
   (\<not> isKeyShape s \<and> newDate env s = LocalDay y m dd \<and> (9999 < y \<or> y < - 9998) \<longrightarrow>
      (\<exists>k. toKey env (Str s) = Some k \<and> \<not> isKeyShape k)) \<and>
   (normalizeDays env ds = Some ds' \<and>
    (\<forall>x\<in>set ds. isKeyShape (date x) \<or> fourDigitDay (newDate env (date x)) \<or>
       (newDate env (date x) = InvalidDate \<and>
        fourDigitDay (newDate env (date x @ ''T00:00:00'')))) \<longrightarrow>
      (\<forall>x'\<in>set ds'. isKeyShape (date x') \<and> toKey env (Str (date x')) = Some (date x'))) \<and>
   ((\<forall>x\<in>set (days resp). isKeyShape (date x) \<or> fourDigitDay (newDate env (date x)) \<or>
       (newDate env (date x) = InvalidDate \<and>
        fourDigitDay (newDate env (date x @ ''T00:00:00'')))) \<longrightarrow>
      (\<exists>a. availability (fetch_settle env (Resolved resp) st) = Some a \<and>
         map (\<lambda>x. Some (date x)) (days a) =
           map (\<lambda>x. toKey env (Str (date x))) (days resp) \<and>
         (\<forall>x'\<in>set (days a). isKeyShape (date x') \<and>
            toKey env (Str (date x')) = Some (date x')))) \<and>
   ((\<exists>x\<in>set (days resp). toKey env (Str (date x)) = None) \<longrightarrow>
      availability (fetch_settle env (Resolved resp) st) = availability st)"
proof (intro conjI impI)
  show "toKey env (Str s) = Some s" if "isKeyShape s"
    using that by simp
  show "\<exists>k. toKey env (Dt d) = Some k \<and> isKeyShape k \<and> toKey env (Str k) = Some k"
    if "fourDigitDay d"
    using format_ymd_shape [OF that] by (auto simp: startOfDay_def toKey.simps)
  show "\<exists>k. toKey env (Str s) = Some k \<and> isKeyShape k \<and> toKey env (Str k) = Some k"
    if h: "fourDigitDay (newDate env s)"
    using toKey_normal_form [of s env] h by auto
  show "\<exists>k. toKey env (Str s) = Some k \<and> isKeyShape k \<and> toKey env (Str k) = Some k"
    if h: "newDate env s = InvalidDate \<and> fourDigitDay (newDate env (s @ ''T00:00:00''))"
    using toKey_normal_form [of s env] h by auto
  show "toKey env (Dt InvalidDate) = None"
    by (rule toKey_invalid_raises(1))
  show "toKey env (Str s) = None"
    if h: "\<not> isKeyShape s \<and> newDate env s = InvalidDate \<and>
      newDate env (s @ ''T00:00:00'') = InvalidDate"
    using toKey_invalid_raises(2) [of s env] h by blast
  show "\<exists>k. toKey env (Dt (LocalDay y m dd)) = Some k \<and> \<not> isKeyShape k"
    if h: "9999 < y \<or> y < - 9998"
    using toKey_long_year(1) [OF h] .
  show "\<exists>k. toKey env (Str s) = Some k \<and> \<not> isKeyShape k"
    if h: "\<not> isKeyShape s \<and> newDate env s = LocalDay y m dd \<and> (9999 < y \<or> y < - 9998)"
    using toKey_long_year(2) [of y s env m dd] h by blast
  show "\<forall>x'\<in>set ds'. isKeyShape (date x') \<and> toKey env (Str (date x')) = Some (date x')"
    if h: "normalizeDays env ds = Some ds' \<and>
      (\<forall>x\<in>set ds. isKeyShape (date x) \<or> fourDigitDay (newDate env (date x)) \<or>
         (newDate env (date x) = InvalidDate \<and>
          fourDigitDay (newDate env (date x @ ''T00:00:00''))))"
    using normalizeDays_keys [of env ds ds'] h by blast
  show "\<exists>a. availability (fetch_settle env (Resolved resp) st) = Some a \<and>
         map (\<lambda>x. Some (date x)) (days a) =
           map (\<lambda>x. toKey env (Str (date x))) (days resp) \<and>
         (\<forall>x'\<in>set (days a). isKeyShape (date x') \<and>
            toKey env (Str (date x')) = Some (date x'))"
    if h: "\<forall>x\<in>set (days resp). isKeyShape (date x) \<or> fourDigitDay (newDate env (date x)) \<or>
       (newDate env (date x) = InvalidDate \<and>
        fourDigitDay (newDate env (date x @ ''T00:00:00'')))"
    using fetch_settle_keys [OF h] .
  show "availability (fetch_settle env (Resolved resp) st) = availability st"
    if h: "\<exists>x\<in>set (days resp). toKey env (Str (date x)) = None"
    using fetch_settle_raises [OF h] .
qed

theorem toKey_shape_and_fixed_point_witness:
  "isKeyShape ''2025-03-10'' \<and> toKey demo_env (Str ''2025-03-10'') = Some ''2025-03-10'' \<and>
   fourDigitDay (LocalDay 2025 3 10) \<and>
   toKey demo_env (Dt (LocalDay 2025 3 10)) = Some ''2025-03-10'' \<and>
   fourDigitDay (newDate demo_env ''March 10, 2025'') \<and>
   toKey demo_env (Str ''March 10, 2025'') = Some ''2025-03-10'' \<and>
   \<not> isKeyShape ''not a date'' \<and> newDate demo_env ''not a date'' = InvalidDate \<and>
   newDate demo_env (''not a date'' @ ''T00:00:00'') = InvalidDate \<and>
   toKey demo_env (Str ''not a date'') = None \<and>
   (9999::int) < 12345 \<and>
   toKey demo_env (Dt (LocalDay 12345 1 1)) = Some ''12345-01-01'' \<and>
   normalizeDays demo_env [day10\<lparr>date := ''March 10, 2025''\<rparr>, day12] = Some [day10, day12] \<and>
   fetch_settle demo_env
       (Resolved (demo_snapshot\<lparr>days := [day10\<lparr>date := ''March 10, 2025''\<rparr>, day12]\<rparr>))
       demo_state =
     demo_state\<lparr>availability := Some (demo_snapshot\<lparr>days := [day10, day12]\<rparr>)\<rparr> \<and>
   toKey demo_env (Str (date (day10\<lparr>date := ''not a date''\<rparr>))) = None \<and>
   fetch_settle demo_env (Resolved (demo_snapshot\<lparr>days := [day10\<lparr>date := ''not a date''\<rparr>]\<rparr>))
       demo_state = demo_state\<lparr>error := ''Invalid time value''\<rparr>"
  using toKey_shape_and_fixed_point [where s = "''2025-03-10''" and env = demo_env
      and d = "LocalDay 2025 3 10" and y = 12345 and m = 1 and dd = 1
      and ds = "[day10\<lparr>date := ''March 10, 2025''\<rparr>, day12]" and ds' = "[day10, day12]"
      and resp = "demo_snapshot\<lparr>days := [day10\<lparr>date := ''March 10, 2025''\<rparr>, day12]\<rparr>"
      and st = demo_state]
    toKey_shape_and_fixed_point [where s = "''March 10, 2025''" and env = demo_env
      and d = "LocalDay 2025 3 10" and y = 12345 and m = 1 and dd = 1
      and ds = "[]" and ds' = "[]"
      and resp = "demo_snapshot\<lparr>days := [day10\<lparr>date := ''not a date''\<rparr>]\<rparr>"
      and st = demo_state]
    toKey_shape_and_fixed_point [where s = "''not a date''" and env = demo_env
      and d = "LocalDay 2025 3 10" and y = 12345 and m = 1 and dd = 1
      and ds = "[]" and ds' = "[]"
      and resp = "demo_snapshot\<lparr>days := []\<rparr>" and st = demo_state]
  by (simp add: demo_env_def demo_state_def demo_snapshot_def day10_def day12_def
      isKeyShape_def isDigit_def startOfDay_def addLeadingZeros_def decimal.simps
      digitChar_def toKey.simps fetch_settle_def catch_fetch_def rangeError_def)

text \<open>
  C10 as stated fails twice. On a string that is neither in shape nor parsable \<^verbatim>\<open>toKey\<close>
  reaches \<^verbatim>\<open>format\<close> with an invalid Date and raises instead of returning a key; and on
  a valid Date of the year 12345 it returns a string that is not of the shape yyyy-MM-dd.
\<close>

theorem toKey_unparsable_raises:
  "toKey demo_env (Str ''not a date'') = None \<and>
   toKey demo_env (Dt (LocalDay 12345 1 1)) = Some ''12345-01-01'' \<and>
   \<not> isKeyShape ''12345-01-01''"
  by (simp add: demo_env_def isKeyShape_def startOfDay_def toKey.simps addLeadingZeros_def
      decimal.simps digitChar_def)

end
